theory Spec2Isabelle
  imports Main "HOL-Library.AList"
begin

section \<open>Errors\<close>

text \<open>
  The Go code builds its errors with \<^verbatim>\<open>fmt.Errorf\<close> and \<^verbatim>\<open>errors.New\<close>. Each message
  is a constructor here, carrying the values the message prints; \<^verbatim>\<open>%w\<close> wraps the
  inner error, \<^verbatim>\<open>errors.Join\<close> keeps the joined errors in order. \<open>External\<close> stands for
  an error handed back by a collaborator (the cluster client, the JSON codec, a typed
  conversion).

  Two messages print a list taken from a string set (\<^verbatim>\<open>UnsortedList\<close>), whose order Go
  leaves open, so the constructor carries the set. The message of
  \<open>NewRequiredWithoutPrevious\<close> prints \<^verbatim>\<open>diff.New.Required\<close> in the same return statement
  that clears this field; what it prints depends on Go's order of evaluating operands, and
  the constructor carries nothing.
\<close>

datatype error =
    External string
  | EnumsAddedWithoutPrevious
  | EnumValuesRemoved "string set"
  | NewRequiredWithoutPrevious
  | NewRequiredFieldsAdded "string set"
  | FieldNotFoundInNew string
  | VersionFieldError string string error
  | UnknownChange string string
  | ConvertingCheckConfig error
  | ParsingPreflightConfig error
  | UnknownPermissionValidatorType string
  | NilSelfSubjectAccessReview
  | UnableToValidatePermissions string
  | NotPermitted string string string string
  | CreatingSelfSubjectRulesReview error
  | IncompleteSelfSubjectRulesReview
  | ConvertingToRoleBinding error
  | ConvertingToClusterRoleBinding error
  | UnknownBindingKind string
  | FetchingClusterRoleForRoleBinding string string error
  | FetchingRoleForRoleBinding string string error
  | UnknownRoleReferenceKind string
  | FetchingClusterRoleForClusterRoleBinding string string error
  | Joined "error list"

section \<open>CRD upgrade safety: schema nodes\<close>

text \<open>
  \<^verbatim>\<open>v1.JSONSchemaProps\<close> is declared outside the repository. The fields kept here are the
  ones the validations and the tests read or write: \<^verbatim>\<open>ID\<close>, \<^verbatim>\<open>Type\<close>, \<^verbatim>\<open>Default\<close>,
  \<^verbatim>\<open>Enum\<close> (the raw bytes of each \<^verbatim>\<open>v1.JSON\<close> as a string), \<^verbatim>\<open>Required\<close> and
  \<^verbatim>\<open>Properties\<close>. A slice or map field is an option: \<open>None\<close> is Go's nil, \<open>Some []\<close>
  the empty non-nil value, which \<^verbatim>\<open>reflect.DeepEqual\<close> tells apart.

  \<^verbatim>\<open>Properties\<close> is a Go map. It is an association list here; its keys are distinct in a
  well-formed node (\<open>wf_schema\<close>), and the order of the list is the order in which a
  \<^verbatim>\<open>range\<close> over the map visits it in the run considered.

  A \<^verbatim>\<open>*v1.JSONSchemaProps\<close> that the code dereferences without a nil check is the node
  itself; on a nil pointer the Go code panics there.
\<close>

datatype JSONSchemaProps = JSONSchemaProps
  (ID: string) (Type: string) (Default: "string option")
  (Enum: "string list option") (Required: "string list option")
  (Properties: "(string \<times> JSONSchemaProps) list option")

definition len :: "'a list option \<Rightarrow> nat" where
  "len xs = (case xs of None \<Rightarrow> 0 | Some l \<Rightarrow> length l)"

definition elems :: "'a list option \<Rightarrow> 'a list" where
  "elems xs = (case xs of None \<Rightarrow> [] | Some l \<Rightarrow> l)"

fun set_Enum :: "string list option \<Rightarrow> JSONSchemaProps \<Rightarrow> JSONSchemaProps" where
  "set_Enum v (JSONSchemaProps i t d e r ps) = JSONSchemaProps i t d v r ps"

fun set_Required :: "string list option \<Rightarrow> JSONSchemaProps \<Rightarrow> JSONSchemaProps" where
  "set_Required v (JSONSchemaProps i t d e r ps) = JSONSchemaProps i t d e v ps"

fun set_Properties ::
  "(string \<times> JSONSchemaProps) list option \<Rightarrow> JSONSchemaProps \<Rightarrow> JSONSchemaProps" where
  "set_Properties v (JSONSchemaProps i t d e r ps) = JSONSchemaProps i t d e r v"

text \<open>\<^verbatim>\<open>DeepCopy\<close> returns a fresh node with the same content; nodes are values here.\<close>

definition DeepCopy :: "JSONSchemaProps \<Rightarrow> JSONSchemaProps" where
  "DeepCopy s = s"

text \<open>
  \<^verbatim>\<open>reflect.DeepEqual\<close> on two nodes: the scalar and slice fields are equal (nil and empty
  slices differ), and the two \<^verbatim>\<open>Properties\<close> maps are both nil, or both non-nil with the
  same number of keys and deeply equal values under every key of the first.
\<close>

fun DeepEqual :: "JSONSchemaProps \<Rightarrow> JSONSchemaProps \<Rightarrow> bool" where
  "DeepEqual (JSONSchemaProps i t d e r ps) (JSONSchemaProps i' t' d' e' r' ps') =
     (i = i' \<and> t = t' \<and> d = d' \<and> e = e' \<and> r = r' \<and>
      (case ps of
         None \<Rightarrow> ps' = None
       | Some xs \<Rightarrow>
           (case ps' of
              None \<Rightarrow> False
            | Some ys \<Rightarrow>
                length xs = length ys \<and>
                list_all (\<lambda>(k, v). case map_of ys k of None \<Rightarrow> False | Some w \<Rightarrow> DeepEqual v w) xs)))"

fun wf_schema :: "JSONSchemaProps \<Rightarrow> bool" where
  "wf_schema (JSONSchemaProps i t d e r ps) =
     (case ps of
        None \<Rightarrow> True
      | Some xs \<Rightarrow> distinct (map fst xs) \<and> list_all (\<lambda>(k, v). wf_schema v) xs)"

section \<open>CRD upgrade safety: change validations\<close>

text \<open>
  \<^verbatim>\<open>FieldDiff\<close> holds two pointers. A validation receives the struct by value and writes
  through the pointers, so the caller sees the nodes as the validation left them: a
  validation returns the \<open>FieldDiff\<close> after the call next to its two results.
  (Two pointers to one and the same node are not represented: they behave as two equal
  nodes do.)
\<close>

record FieldDiff =
  Old :: JSONSchemaProps
  New :: JSONSchemaProps

text \<open>
  \<^verbatim>\<open>sets.NewString()\<close> followed by the loop that inserts every element not yet in the set.
\<close>

definition string_set :: "string list \<Rightarrow> string set" where
  "string_set xs = fold (\<lambda>x acc. if x \<notin> acc then insert x acc else acc) xs {}"

text \<open>The closure \<^verbatim>\<open>handled\<close> of \<^verbatim>\<open>EnumChangeValidation\<close>.\<close>

definition handled_Enum :: "FieldDiff \<Rightarrow> bool \<times> FieldDiff" where
  "handled_Enum diff =
     (let diff1 = diff\<lparr>Old := set_Enum (Some []) (Old diff)\<rparr>;
          diff2 = diff1\<lparr>New := set_Enum (Some []) (New diff1)\<rparr>
      in (DeepEqual (Old diff2) (New diff2), diff2))"

definition EnumChangeValidation :: "FieldDiff \<Rightarrow> (bool \<times> error option) \<times> FieldDiff" where
  "EnumChangeValidation diff =
     (if len (Enum (Old diff)) = 0 \<and> len (Enum (New diff)) > 0
      then (let (h, diff') = handled_Enum diff in ((h, Some EnumsAddedWithoutPrevious), diff'))
      else
        (let oldSet = string_set (elems (Enum (Old diff)));
             newSet = string_set (elems (Enum (New diff)));
             diffSet = oldSet - newSet
         in if diffSet \<noteq> {}
            then (let (h, diff') = handled_Enum diff
                  in ((h, Some (EnumValuesRemoved diffSet)), diff'))
            else (let (h, diff') = handled_Enum diff in ((h, None), diff'))))"

text \<open>The closure \<^verbatim>\<open>handled\<close> of \<^verbatim>\<open>RequiredFieldChangeValidation\<close>.\<close>

definition handled_Required :: "FieldDiff \<Rightarrow> bool \<times> FieldDiff" where
  "handled_Required diff =
     (let diff1 = diff\<lparr>Old := set_Required (Some []) (Old diff)\<rparr>;
          diff2 = diff1\<lparr>New := set_Required (Some []) (New diff1)\<rparr>
      in (DeepEqual (Old diff2) (New diff2), diff2))"

definition RequiredFieldChangeValidation ::
  "FieldDiff \<Rightarrow> (bool \<times> error option) \<times> FieldDiff" where
  "RequiredFieldChangeValidation diff =
     (if len (Required (Old diff)) = 0 \<and> len (Required (New diff)) > 0
      then (let (h, diff') = handled_Required diff
            in ((h, Some NewRequiredWithoutPrevious), diff'))
      else
        (let oldSet = string_set (elems (Required (Old diff)));
             newSet = string_set (elems (Required (New diff)));
             diffSet = newSet - oldSet
         in if diffSet \<noteq> {}
            then (let (h, diff') = handled_Required diff
                  in ((h, Some (NewRequiredFieldsAdded diffSet)), diff'))
            else (let (h, diff') = handled_Required diff in ((h, None), diff'))))"

text \<open>
  \<^verbatim>\<open>ChangeValidation\<close> is a Go function value. A call may write through the two
  pointers of the \<^verbatim>\<open>FieldDiff\<close> and, when the function is a closure, to what it captured:
  the second argument and the last component of the result are that captured state.
  \<open>stateless\<close> makes a validation that captures nothing, as the two above.
\<close>

type_synonym 'w ChangeValidation = "FieldDiff \<Rightarrow> 'w \<Rightarrow> (bool \<times> error option) \<times> FieldDiff \<times> 'w"

definition stateless ::
  "(FieldDiff \<Rightarrow> (bool \<times> error option) \<times> FieldDiff) \<Rightarrow> 'w ChangeValidation" where
  "stateless validation diff w = (let (res, diff') = validation diff in (res, diff', w))"

text \<open>
  The inner loop of \<^verbatim>\<open>ChangeValidator.Validate\<close> over \<^verbatim>\<open>cv.Validations\<close> for one field:
  the result is the flag \<^verbatim>\<open>handled\<close>, the error list \<^verbatim>\<open>errs\<close>, and the state left behind.
\<close>

fun run_validations ::
  "'w ChangeValidation list \<Rightarrow> string \<Rightarrow> string \<Rightarrow> FieldDiff \<Rightarrow> 'w \<Rightarrow> error list \<Rightarrow>
     bool \<times> error list \<times> FieldDiff \<times> 'w" where
  "run_validations [] version field diff w errs = (False, errs, diff, w)"
| "run_validations (validation # rest) version field diff w errs =
     (let ((ok, err), diff', w') = validation diff w;
          errs' = (case err of
                     None \<Rightarrow> errs
                   | Some e \<Rightarrow> errs @ [VersionFieldError version field e])
      in if ok then (True, errs', diff', w')
         else run_validations rest version field diff' w' errs')"

text \<open>The body of the loop over \<^verbatim>\<open>diffs\<close>: the chain, then the check of \<^verbatim>\<open>handled\<close>.\<close>

definition validate_field ::
  "'w ChangeValidation list \<Rightarrow> string \<Rightarrow> string \<Rightarrow> FieldDiff \<Rightarrow> 'w \<Rightarrow> error list \<Rightarrow>
     error list \<times> FieldDiff \<times> 'w" where
  "validate_field validations version field diff w errs =
     (let (handled, errs', diff', w') = run_validations validations version field diff w errs
      in (if \<not> handled then errs' @ [UnknownChange version field] else errs', diff', w'))"

text \<open>
  The loop \<^verbatim>\<open>for field, diff := range diffs\<close>; the list gives the fields in the order of
  the \<^verbatim>\<open>range\<close>.
\<close>

fun validate_diffs ::
  "'w ChangeValidation list \<Rightarrow> string \<Rightarrow> (string \<times> FieldDiff) list \<Rightarrow> 'w \<Rightarrow> error list \<Rightarrow>
     error list \<times> (string \<times> FieldDiff) list \<times> 'w" where
  "validate_diffs validations version [] w errs = (errs, [], w)"
| "validate_diffs validations version ((field, diff) # diffs) w errs =
     (let (errs', diff', w') = validate_field validations version field diff w errs;
          (errs'', diffs', w'') = validate_diffs validations version diffs w' errs'
      in (errs'', (field, diff') # diffs', w''))"

text \<open>
  What "invoke these validations, one after the other" means: every validation of the
  list is called, each on the state the one before it left, and the results are
  collected in order. The chain is compared with this.
\<close>

fun invoke_in_order ::
  "'w ChangeValidation list \<Rightarrow> FieldDiff \<Rightarrow> 'w \<Rightarrow> (bool \<times> error option) list \<times> FieldDiff \<times> 'w" where
  "invoke_in_order [] diff w = ([], diff, w)"
| "invoke_in_order (validation # rest) diff w =
     (let (res, diff', w') = validation diff w;
          (ress, diff'', w'') = invoke_in_order rest diff' w'
      in (res # ress, diff'', w''))"

definition reported :: "string \<Rightarrow> string \<Rightarrow> (bool \<times> error option) list \<Rightarrow> error list" where
  "reported version field ress =
     concat (map (\<lambda>(ok, err). case err of
                                 None \<Rightarrow> []
                               | Some e \<Rightarrow> [VersionFieldError version field e]) ress)"

section \<open>CRD upgrade safety: flattening and diffing\<close>

text \<open>
  \<^verbatim>\<open>FlatSchema\<close> and the diff map are Go maps from a path to a node or a \<^verbatim>\<open>FieldDiff\<close>:
  association lists with distinct keys, in the order of the \<^verbatim>\<open>range\<close> over them. A
  lookup is \<open>map_of\<close>, an assignment \<^verbatim>\<open>m[k] = v\<close> is \<open>AList.update\<close>.
\<close>

type_synonym FlatSchema = "(string \<times> JSONSchemaProps) list"

text \<open>
  Modelled from the spec: \<^verbatim>\<open>manifestcomparators.SchemaHas\<close> and \<^verbatim>\<open>field.Path\<close>, which
  \<^verbatim>\<open>FlattenSchema\<close> calls, are not in the source tree. The spec has the traversal go depth
  first from the root, visit every node including the root, whose path is \<^verbatim>\<open>^\<close>, and
  append \<^verbatim>\<open>.name\<close> to the parent's path for a child; the children of a node are the
  values of its \<^verbatim>\<open>Properties\<close>. \<open>SchemaHas path s\<close> is the list of the calls of the
  callback, in order, each with the path and the node handed over. (The callback of
  \<^verbatim>\<open>FlattenSchema\<close> always returns false, so the walk never stops early.)
\<close>

fun SchemaHas :: "string \<Rightarrow> JSONSchemaProps \<Rightarrow> (string \<times> JSONSchemaProps) list"
  and SchemaHas_properties ::
    "string \<Rightarrow> (string \<times> JSONSchemaProps) list \<Rightarrow> (string \<times> JSONSchemaProps) list" where
  "SchemaHas path (JSONSchemaProps i t d e r ps) =
     (path, JSONSchemaProps i t d e r ps) #
       (case ps of None \<Rightarrow> [] | Some props \<Rightarrow> SchemaHas_properties path props)"
| "SchemaHas_properties path [] = []"
| "SchemaHas_properties path ((name, child) # props) =
     SchemaHas (path @ ''.'' @ name) child @ SchemaHas_properties path props"

text \<open>
  \<^verbatim>\<open>FlattenSchema\<close>: the callback stores a copy of each node under its path, in the order
  of the calls; a nil schema makes no call.
\<close>

definition FlattenSchema :: "JSONSchemaProps option \<Rightarrow> FlatSchema" where
  "FlattenSchema schema =
     fold (\<lambda>(simpleLocation, s) fieldMap. AList.update simpleLocation (DeepCopy s) fieldMap)
       (case schema of None \<Rightarrow> [] | Some root \<Rightarrow> SchemaHas ''^'' root) []"

text \<open>
  The loop of \<^verbatim>\<open>CalculateFlatSchemaDiff\<close> over the old flat schema (the source calls
  the two arguments \<^verbatim>\<open>o\<close> and \<^verbatim>\<open>n\<close>), with \<^verbatim>\<open>diffMap\<close> as accumulator. On a field missing
  from the new schema it returns \<^verbatim>\<open>diffMap\<close> as built so far, with the error.
\<close>

fun CalculateFlatSchemaDiff_loop ::
  "FlatSchema \<Rightarrow> FlatSchema \<Rightarrow> (string \<times> FieldDiff) list \<Rightarrow>
     (string \<times> FieldDiff) list \<times> error option" where
  "CalculateFlatSchemaDiff_loop [] n diffMap = (diffMap, None)"
| "CalculateFlatSchemaDiff_loop ((field, schema) # rest) n diffMap =
     (case map_of n field of
        None \<Rightarrow> (diffMap, Some (FieldNotFoundInNew field))
      | Some newSchema \<Rightarrow>
          (let oldCopy = set_Properties None (DeepCopy schema);
               newCopy = set_Properties None (DeepCopy newSchema);
               diffMap' = (if \<not> DeepEqual oldCopy newCopy
                           then AList.update field \<lparr>Old = oldCopy, New = newCopy\<rparr> diffMap
                           else diffMap)
           in CalculateFlatSchemaDiff_loop rest n diffMap'))"

definition CalculateFlatSchemaDiff ::
  "FlatSchema \<Rightarrow> FlatSchema \<Rightarrow> (string \<times> FieldDiff) list \<times> error option" where
  "CalculateFlatSchemaDiff old new = CalculateFlatSchemaDiff_loop old new []"

text \<open>
  A closure as the tests of \<^verbatim>\<open>ChangeValidator\<close> use them: it returns fixed results, and
  counts its calls in the state it captured.
\<close>

definition fixed_validation :: "bool \<Rightarrow> error option \<Rightarrow> nat ChangeValidation" where
  "fixed_validation ok err diff calls = ((ok, err), diff, Suc calls)"

text \<open>
  The nodes of a tree, for stating what flattening keeps: \<open>node_count\<close> counts them,
  \<open>node_at s names\<close> is the node reached from \<open>s\<close> by following the property names
  \<open>names\<close>, \<open>path_of names\<close> is its path (\<^verbatim>\<open>^\<close>, then \<^verbatim>\<open>.name\<close> for each name), and
  \<open>dot_free\<close> holds when no property name in the tree contains a dot.
\<close>

fun node_count :: "JSONSchemaProps \<Rightarrow> nat"
  and node_count_properties :: "(string \<times> JSONSchemaProps) list \<Rightarrow> nat" where
  "node_count (JSONSchemaProps i t d e r ps) =
     Suc (case ps of None \<Rightarrow> 0 | Some props \<Rightarrow> node_count_properties props)"
| "node_count_properties [] = 0"
| "node_count_properties ((name, child) # props) =
     node_count child + node_count_properties props"

fun node_at :: "JSONSchemaProps \<Rightarrow> string list \<Rightarrow> JSONSchemaProps option" where
  "node_at s [] = Some s"
| "node_at s (name # names) =
     (case map_of (elems (Properties s)) name of
        None \<Rightarrow> None
      | Some child \<Rightarrow> node_at child names)"

definition path_of :: "string list \<Rightarrow> string" where
  "path_of names = ''^'' @ concat (map (\<lambda>name. ''.'' @ name) names)"

fun dot_free :: "JSONSchemaProps \<Rightarrow> bool" where
  "dot_free (JSONSchemaProps i t d e r ps) =
     (case ps of
        None \<Rightarrow> True
      | Some xs \<Rightarrow> list_all (\<lambda>(name, child). CHR ''.'' \<notin> set name \<and> dot_free child) xs)"

definition props_ok :: "(string \<times> JSONSchemaProps) list \<Rightarrow> bool" where
  "props_ok props \<longleftrightarrow>
     distinct (map fst props) \<and> list_all (\<lambda>(k, v). wf_schema v) props \<and>
     list_all (\<lambda>(name, child). CHR ''.'' \<notin> set name \<and> dot_free child) props"

section \<open>Permission preflight: configuration and strategy\<close>

text \<open>
  \<^verbatim>\<open>Preflight\<close> without its \<^verbatim>\<open>depsFactory\<close>, whose two results \<^verbatim>\<open>Run\<close> takes as
  arguments. \<^verbatim>\<open>config\<close> is a pointer that \<^verbatim>\<open>NewPreflight\<close> sets and nothing resets.
\<close>

record PreflightConfig =
  PermissionValidatorResource :: string

record Preflight =
  enabled :: bool
  config :: PreflightConfig

definition PermissionValidatorTypeSelfSubjectAccessReview :: string where
  "PermissionValidatorTypeSelfSubjectAccessReview = ''SelfSubjectAccessReview''"

definition PermissionValidatorTypeSelfSubjectRulesReview :: string where
  "PermissionValidatorTypeSelfSubjectRulesReview = ''SelfSubjectRulesReview''"

definition NewPreflight :: "bool \<Rightarrow> Preflight" where
  "NewPreflight en =
     \<lparr>enabled = en,
      config = \<lparr>PermissionValidatorResource = PermissionValidatorTypeSelfSubjectAccessReview\<rparr>\<rparr>"

text \<open>
  \<^verbatim>\<open>SetConfig\<close>. \<^verbatim>\<open>json.Marshal\<close> and \<^verbatim>\<open>json.Unmarshal\<close> are the two parameters; the
  second fills the fresh \<^verbatim>\<open>PreflightConfig\<close> it is given. The result is the error and the
  receiver after the call. The source assigns the default to the local \<^verbatim>\<open>pCfg\<close> and
  returns; no path assigns \<^verbatim>\<open>p.config\<close>.
\<close>

definition SetConfig ::
  "('cfg \<Rightarrow> error + 'bytes) \<Rightarrow> ('bytes \<Rightarrow> PreflightConfig \<Rightarrow> error + PreflightConfig) \<Rightarrow>
     Preflight \<Rightarrow> 'cfg \<Rightarrow> error option \<times> Preflight" where
  "SetConfig Marshal Unmarshal p cfg =
     (case Marshal cfg of
        Inl err \<Rightarrow> (Some (ConvertingCheckConfig err), p)
      | Inr cfgBytes \<Rightarrow>
          (case Unmarshal cfgBytes \<lparr>PermissionValidatorResource = []\<rparr> of
             Inl err \<Rightarrow> (Some (ParsingPreflightConfig err), p)
           | Inr pCfg \<Rightarrow>
               if PermissionValidatorResource pCfg = PermissionValidatorTypeSelfSubjectAccessReview \<or>
                  PermissionValidatorResource pCfg = PermissionValidatorTypeSelfSubjectRulesReview
               then (None, p)
               else if PermissionValidatorResource pCfg = []
               then (let pCfg' = pCfg\<lparr>PermissionValidatorResource :=
                                        PermissionValidatorTypeSelfSubjectAccessReview\<rparr>
                     in (None, p))
               else (Some (UnknownPermissionValidatorType (PermissionValidatorResource pCfg)), p)))"

text \<open>
  A configuration bag whose options are strings, with a codec that cannot fail: decoding
  copies the option \<^verbatim>\<open>permissionValidatorResource\<close>, when the bag has it, into the struct.
\<close>

definition bag_Marshal :: "(string \<times> string) list \<Rightarrow> error + (string \<times> string) list" where
  "bag_Marshal cfg = Inr cfg"

definition bag_Unmarshal ::
  "(string \<times> string) list \<Rightarrow> PreflightConfig \<Rightarrow> error + PreflightConfig" where
  "bag_Unmarshal cfgBytes pCfg =
     (case map_of cfgBytes ''permissionValidatorResource'' of
        None \<Rightarrow> Inr pCfg
      | Some v \<Rightarrow> Inr (pCfg\<lparr>PermissionValidatorResource := v\<rparr>))"

text \<open>
  The switch of \<^verbatim>\<open>Run\<close> that builds the permission validator; it has no default, so any
  other name leaves the nil interface (\<open>None\<close>).
\<close>

datatype PermissionValidator =
    NewSelfSubjectAccessReviewValidator
  | NewSelfSubjectRulesReviewValidator

definition permissionValidator_of :: "Preflight \<Rightarrow> PermissionValidator option" where
  "permissionValidator_of p =
     (if PermissionValidatorResource (config p) = PermissionValidatorTypeSelfSubjectAccessReview
      then Some NewSelfSubjectAccessReviewValidator
      else if PermissionValidatorResource (config p) = PermissionValidatorTypeSelfSubjectRulesReview
      then Some NewSelfSubjectRulesReviewValidator
      else None)"

section \<open>Permission preflight: the run over the change graph\<close>

text \<open>
  A change of the graph with its two accessors \<^verbatim>\<open>Resource()\<close> and \<^verbatim>\<open>Op()\<close>; the switch
  of \<^verbatim>\<open>Run\<close> has a case for delete and one for upsert, and does nothing for any other
  operation (\<open>ActualChangeOpNoop\<close>).
\<close>

datatype ActualChangeOp = ActualChangeOpDelete | ActualChangeOpUpsert | ActualChangeOpNoop

record 'r Change =
  Change_Resource :: 'r
  Change_Op :: ActualChangeOp

text \<open>
  \<^verbatim>\<open>validator.Validate(ctx, resource, verb)\<close> calls the cluster and, with the cached
  strategy, writes the cache: a validator takes the state \<open>'w\<close> of both and returns it.
\<close>

type_synonym ('r, 'w) Validator = "'r \<Rightarrow> string \<Rightarrow> 'w \<Rightarrow> error option \<times> 'w"

definition append_error :: "error list \<Rightarrow> error option \<Rightarrow> error list" where
  "append_error errorSet err = (case err of None \<Rightarrow> errorSet | Some e \<Rightarrow> errorSet @ [e])"

fun Run_changes ::
  "('r, 'w) Validator \<Rightarrow> 'r Change list \<Rightarrow> error list \<Rightarrow> 'w \<Rightarrow> error list \<times> 'w" where
  "Run_changes validator [] errorSet w = (errorSet, w)"
| "Run_changes validator (change # rest) errorSet w =
     (case Change_Op change of
        ActualChangeOpDelete \<Rightarrow>
          (let (err, w1) = validator (Change_Resource change) ''delete'' w
           in Run_changes validator rest (append_error errorSet err) w1)
      | ActualChangeOpUpsert \<Rightarrow>
          (let (err, w1) = validator (Change_Resource change) ''create'' w;
               errorSet1 = append_error errorSet err;
               (err', w2) = validator (Change_Resource change) ''update'' w1
           in Run_changes validator rest (append_error errorSet1 err') w2)
      | ActualChangeOpNoop \<Rightarrow> Run_changes validator rest errorSet w)"

text \<open>
  \<^verbatim>\<open>Run\<close>. \<open>CoreClient\<close> and \<open>RESTMapper\<close> are the results of the two calls on the
  \<^verbatim>\<open>depsFactory\<close>; \<open>NewCompositeValidator\<close> stands for the construction of the role,
  binding and basic validators around the chosen permission validator, whose sources are
  not part of this development.
\<close>

definition Run ::
  "error + 'client \<Rightarrow> error + 'mapper \<Rightarrow>
   (PermissionValidator option \<Rightarrow> 'client \<Rightarrow> 'mapper \<Rightarrow> ('r, 'w) Validator) \<Rightarrow>
   Preflight \<Rightarrow> 'r Change list \<Rightarrow> 'w \<Rightarrow> error option \<times> 'w" where
  "Run CoreClient RESTMapper NewCompositeValidator p changeGraph w =
     (case CoreClient of
        Inl err \<Rightarrow> (Some err, w)
      | Inr client \<Rightarrow>
          (case RESTMapper of
             Inl err \<Rightarrow> (Some err, w)
           | Inr mapper \<Rightarrow>
               (let permissionValidator = permissionValidator_of p;
                    validator = NewCompositeValidator permissionValidator client mapper;
                    (errorSet, w') = Run_changes validator changeGraph [] w
                in (if length errorSet > 0 then Some (Joined errorSet) else None, w'))))"

text \<open>
  What the run is compared with: the verbs an operation requires, the checks a change
  graph requires, in order, and the validator called on each of them in turn.
\<close>

fun required_verbs :: "ActualChangeOp \<Rightarrow> string list" where
  "required_verbs ActualChangeOpDelete = [''delete'']"
| "required_verbs ActualChangeOpUpsert = [''create'', ''update'']"
| "required_verbs ActualChangeOpNoop = []"

definition required_checks :: "'r Change list \<Rightarrow> ('r \<times> string) list" where
  "required_checks changeGraph =
     concat (map (\<lambda>change. map (\<lambda>verb. (Change_Resource change, verb))
                                 (required_verbs (Change_Op change))) changeGraph)"

fun check_in_order ::
  "('r, 'w) Validator \<Rightarrow> ('r \<times> string) list \<Rightarrow> 'w \<Rightarrow> error option list \<times> 'w" where
  "check_in_order validator [] w = ([], w)"
| "check_in_order validator ((resource, verb) # rest) w =
     (let (err, w1) = validator resource verb w;
          (errs, w2) = check_in_order validator rest w1
      in (err # errs, w2))"

definition failures :: "error option list \<Rightarrow> error list" where
  "failures results = concat (map (\<lambda>err. case err of None \<Rightarrow> [] | Some e \<Rightarrow> [e]) results)"

section \<open>Permission preflight: the two permission validators\<close>

text \<open>
  The fields of \<^verbatim>\<open>authv1.ResourceAttributes\<close> the validators read, and the part of the
  status of a \<^verbatim>\<open>SelfSubjectAccessReview\<close> they read.
\<close>

record ResourceAttributes =
  Namespace :: string
  Verb :: string
  Group :: string
  Version :: string
  Resource :: string
  Name :: string

record SubjectAccessReviewStatus =
  Allowed :: bool
  EvaluationError :: string

definition not_permitted :: "ResourceAttributes \<Rightarrow> error" where
  "not_permitted resourceAttrib =
     NotPermitted (Verb resourceAttrib) (Group resourceAttrib) (Version resourceAttrib)
       (Resource resourceAttrib)"

text \<open>
  \<^verbatim>\<open>SelfSubjectAccessReviewValidator.ValidatePermissions\<close>. \<open>ssarCreate\<close> is the call
  \<^verbatim>\<open>rv.ssarClient.Create\<close> with its two results, the returned review (\<open>None\<close> for nil) and
  the error.
\<close>

definition SelfSubjectAccessReviewValidator_ValidatePermissions ::
  "(ResourceAttributes \<Rightarrow> 'w \<Rightarrow> (SubjectAccessReviewStatus option \<times> error option) \<times> 'w) \<Rightarrow>
     ResourceAttributes \<Rightarrow> 'w \<Rightarrow> error option \<times> 'w" where
  "SelfSubjectAccessReviewValidator_ValidatePermissions ssarCreate resourceAttrib w =
     (let ((retSsar, err), w') = ssarCreate resourceAttrib w
      in case err of
           Some e \<Rightarrow> (Some e, w')
         | None \<Rightarrow>
             (case retSsar of
                None \<Rightarrow> (Some NilSelfSubjectAccessReview, w')
              | Some status \<Rightarrow>
                  if EvaluationError status \<noteq> []
                  then (Some (UnableToValidatePermissions (EvaluationError status)), w')
                  else if \<not> Allowed status
                  then (Some (not_permitted resourceAttrib), w')
                  else (None, w')))"

text \<open>
  The rules of \<^verbatim>\<open>authv1\<close> and \<^verbatim>\<open>rbacv1\<close>, the status of a \<^verbatim>\<open>SelfSubjectRulesReview\<close>,
  and the \<^verbatim>\<open>authorizer.AttributesRecord\<close> handed to \<^verbatim>\<open>RulesAllow\<close>. (Here a nil slice
  and an empty one are not told apart: nothing compares them.)
\<close>

record ResourceRule =
  rr_Verbs :: "string list"
  rr_APIGroups :: "string list"
  rr_Resources :: "string list"
  rr_ResourceNames :: "string list"

record NonResourceRule =
  nr_Verbs :: "string list"
  nr_NonResourceURLs :: "string list"

record PolicyRule =
  Verbs :: "string list"
  APIGroups :: "string list"
  Resources :: "string list"
  ResourceNames :: "string list"
  NonResourceURLs :: "string list"

record SubjectRulesReviewStatus =
  ResourceRules :: "ResourceRule list"
  NonResourceRules :: "NonResourceRule list"
  Incomplete :: bool

record AttributesRecord =
  ar_Verb :: string
  ar_Name :: string
  ar_Namespace :: string
  ar_Resource :: string
  ar_APIGroup :: string
  ar_ResourceRequest :: bool

text \<open>The two loops that turn the rules of the review into \<^verbatim>\<open>rbacv1.PolicyRule\<close>s.\<close>

definition rules_of_review :: "SubjectRulesReviewStatus \<Rightarrow> PolicyRule list" where
  "rules_of_review status =
     map (\<lambda>rule. \<lparr>Verbs = rr_Verbs rule, APIGroups = rr_APIGroups rule,
                   Resources = rr_Resources rule, ResourceNames = rr_ResourceNames rule,
                   NonResourceURLs = []\<rparr>) (ResourceRules status) @
     map (\<lambda>rule. \<lparr>Verbs = nr_Verbs rule, APIGroups = [], Resources = [], ResourceNames = [],
                   NonResourceURLs = nr_NonResourceURLs rule\<rparr>) (NonResourceRules status)"

definition attributes_record :: "ResourceAttributes \<Rightarrow> AttributesRecord" where
  "attributes_record resourceAttrib =
     \<lparr>ar_Verb = Verb resourceAttrib, ar_Name = Name resourceAttrib,
      ar_Namespace = Namespace resourceAttrib, ar_Resource = Resource resourceAttrib,
      ar_APIGroup = Group resourceAttrib, ar_ResourceRequest = True\<rparr>"

text \<open>
  \<^verbatim>\<open>SelfSubjectRulesReviewValidator.ValidatePermissions\<close>. The state is the cache of the
  validator and the state \<open>'w\<close> of the cluster client; \<open>ssrrCreate\<close> is the call
  \<^verbatim>\<open>rv.ssrrClient.Create\<close> for a namespace, \<open>RulesAllow\<close> is \<^verbatim>\<open>rbacauthorizer.RulesAllow\<close>,
  which is not part of the repository. The mutex serialises the calls; calls are taken one
  after the other here. A lookup of a missing key in a Go map gives the nil slice.
\<close>

type_synonym 'w ssrr_state = "(string \<rightharpoonup> PolicyRule list) \<times> 'w"

definition SelfSubjectRulesReviewValidator_ValidatePermissions ::
  "(string \<Rightarrow> 'w \<Rightarrow> (error + SubjectRulesReviewStatus) \<times> 'w) \<Rightarrow>
   (AttributesRecord \<Rightarrow> PolicyRule list \<Rightarrow> bool) \<Rightarrow>
     ResourceAttributes \<Rightarrow> 'w ssrr_state \<Rightarrow> error option \<times> 'w ssrr_state" where
  "SelfSubjectRulesReviewValidator_ValidatePermissions ssrrCreate RulesAllow resourceAttrib st =
     (let cache = fst st; w = snd st;
          ns = (if Namespace resourceAttrib = [] then ''default'' else Namespace resourceAttrib);
          populated =
            (case cache ns of
               Some _ \<Rightarrow> Inr (cache, w)
             | None \<Rightarrow>
                 (let (res, w') = ssrrCreate ns w
                  in case res of
                       Inl err \<Rightarrow> Inl (CreatingSelfSubjectRulesReview err, w')
                     | Inr status \<Rightarrow>
                         if Incomplete status then Inl (IncompleteSelfSubjectRulesReview, w')
                         else Inr (cache(ns \<mapsto> rules_of_review status), w')))
      in case populated of
           Inl (e, w') \<Rightarrow> (Some e, (cache, w'))
         | Inr (cache', w') \<Rightarrow>
             (let rules = (case cache' ns of None \<Rightarrow> [] | Some rs \<Rightarrow> rs)
              in if \<not> RulesAllow (attributes_record resourceAttrib) rules
                 then (Some (not_permitted resourceAttrib), (cache', w'))
                 else (None, (cache', w'))))"

text \<open>
  A run of checks through the cached validator, and a client that keeps a log: every call
  adds the namespace asked for and whether the answer was a complete review.
\<close>

fun validate_all ::
  "(string \<Rightarrow> 'w \<Rightarrow> (error + SubjectRulesReviewStatus) \<times> 'w) \<Rightarrow>
   (AttributesRecord \<Rightarrow> PolicyRule list \<Rightarrow> bool) \<Rightarrow>
     ResourceAttributes list \<Rightarrow> 'w ssrr_state \<Rightarrow> error option list \<times> 'w ssrr_state" where
  "validate_all ssrrCreate RulesAllow [] st = ([], st)"
| "validate_all ssrrCreate RulesAllow (resourceAttrib # rest) st =
     (let (err, st1) =
            SelfSubjectRulesReviewValidator_ValidatePermissions ssrrCreate RulesAllow resourceAttrib st;
          (errs, st2) = validate_all ssrrCreate RulesAllow rest st1
      in (err # errs, st2))"

definition complete_review :: "error + SubjectRulesReviewStatus \<Rightarrow> bool" where
  "complete_review res = (case res of Inl _ \<Rightarrow> False | Inr status \<Rightarrow> \<not> Incomplete status)"

definition logged ::
  "(string \<Rightarrow> 'w \<Rightarrow> (error + SubjectRulesReviewStatus) \<times> 'w) \<Rightarrow>
     string \<Rightarrow> 'w \<times> (string \<times> bool) list \<Rightarrow>
     (error + SubjectRulesReviewStatus) \<times> ('w \<times> (string \<times> bool) list)" where
  "logged ssrrCreate ns wl =
     (let (res, w') = ssrrCreate ns (fst wl)
      in (res, (w', snd wl @ [(ns, complete_review res)])))"

definition queries :: "string \<Rightarrow> (string \<times> bool) list \<Rightarrow> nat" where
  "queries ns log = length (filter (\<lambda>entry. fst entry = ns) log)"

definition complete_queries :: "string \<Rightarrow> (string \<times> bool) list \<Rightarrow> nat" where
  "complete_queries ns log = length (filter (\<lambda>entry. fst entry = ns \<and> snd entry) log)"

text \<open>Two clients for examples: one whose call always fails, one that grants one rule.\<close>

definition failing_ssrrCreate ::
  "string \<Rightarrow> unit \<Rightarrow> (error + SubjectRulesReviewStatus) \<times> unit" where
  "failing_ssrrCreate ns w = (Inl (External ''connection refused''), w)"

definition granting_ssrrCreate ::
  "string \<Rightarrow> unit \<Rightarrow> (error + SubjectRulesReviewStatus) \<times> unit" where
  "granting_ssrrCreate ns w =
     (Inr \<lparr>ResourceRules = [\<lparr>rr_Verbs = [''get''], rr_APIGroups = [[]],
                              rr_Resources = [''configmaps''], rr_ResourceNames = []\<rparr>],
           NonResourceRules = [], Incomplete = False\<rparr>, w)"

definition verb_listed :: "AttributesRecord \<Rightarrow> PolicyRule list \<Rightarrow> bool" where
  "verb_listed a rules = (\<exists>rule \<in> set rules. ar_Verb a \<in> set (Verbs rule))"

section \<open>Permission preflight: rules of a binding\<close>

text \<open>
  The binding types of \<^verbatim>\<open>rbacv1\<close>, as far as the resolvers read them. A resource is its
  \<^verbatim>\<open>Kind()\<close> and the outcome of \<^verbatim>\<open>AsTypedObj\<close> for each of the two binding types. The
  client answers \<^verbatim>\<open>ClusterRoles().Get(name)\<close> and \<^verbatim>\<open>Roles(namespace).Get(name)\<close>; it only
  reads the cluster.
\<close>

record RoleRef =
  ref_Kind :: string
  ref_Name :: string

record RoleBinding =
  rb_Name :: string
  rb_Namespace :: string
  rb_RoleRef :: RoleRef

record ClusterRoleBinding =
  crb_Name :: string
  crb_RoleRef :: RoleRef

record Role =
  Rules :: "PolicyRule list"

record BindingResource =
  Kind :: string
  AsRoleBinding :: "error + RoleBinding"
  AsClusterRoleBinding :: "error + ClusterRoleBinding"

definition RulesForRoleBinding ::
  "(string \<Rightarrow> error + Role) \<Rightarrow> (string \<Rightarrow> string \<Rightarrow> error + Role) \<Rightarrow> RoleBinding \<Rightarrow>
     error + PolicyRule list" where
  "RulesForRoleBinding ClusterRoles_Get Roles_Get rb =
     (if ref_Kind (rb_RoleRef rb) = ''ClusterRole''
      then (case ClusterRoles_Get (ref_Name (rb_RoleRef rb)) of
              Inl err \<Rightarrow>
                Inl (FetchingClusterRoleForRoleBinding (ref_Name (rb_RoleRef rb)) (rb_Name rb) err)
            | Inr role \<Rightarrow> Inr (Rules role))
      else if ref_Kind (rb_RoleRef rb) = ''Role''
      then (case Roles_Get (rb_Namespace rb) (ref_Name (rb_RoleRef rb)) of
              Inl err \<Rightarrow>
                Inl (FetchingRoleForRoleBinding (ref_Name (rb_RoleRef rb)) (rb_Name rb) err)
            | Inr role \<Rightarrow> Inr (Rules role))
      else Inl (UnknownRoleReferenceKind (ref_Kind (rb_RoleRef rb))))"

definition RulesForClusterRoleBinding ::
  "(string \<Rightarrow> error + Role) \<Rightarrow> ClusterRoleBinding \<Rightarrow> error + PolicyRule list" where
  "RulesForClusterRoleBinding ClusterRoles_Get crb =
     (case ClusterRoles_Get (ref_Name (crb_RoleRef crb)) of
        Inl err \<Rightarrow>
          Inl (FetchingClusterRoleForClusterRoleBinding
                 (ref_Name (crb_RoleRef crb)) (crb_Name crb) err)
      | Inr role \<Rightarrow> Inr (Rules role))"

definition RulesForBinding ::
  "(string \<Rightarrow> error + Role) \<Rightarrow> (string \<Rightarrow> string \<Rightarrow> error + Role) \<Rightarrow> BindingResource \<Rightarrow>
     error + PolicyRule list" where
  "RulesForBinding ClusterRoles_Get Roles_Get res =
     (if Kind res = ''RoleBinding''
      then (case AsRoleBinding res of
              Inl err \<Rightarrow> Inl (ConvertingToRoleBinding err)
            | Inr roleBinding \<Rightarrow> RulesForRoleBinding ClusterRoles_Get Roles_Get roleBinding)
      else if Kind res = ''ClusterRoleBinding''
      then (case AsClusterRoleBinding res of
              Inl err \<Rightarrow> Inl (ConvertingToClusterRoleBinding err)
            | Inr roleBinding \<Rightarrow> RulesForClusterRoleBinding ClusterRoles_Get roleBinding)
      else Inl (UnknownBindingKind (Kind res)))"

text \<open>
  For examples: a cluster that allows \<^verbatim>\<open>update\<close> and denies every other verb, and a
  validator that checks a resource, given by its attributes, with the direct strategy
  (in place of the basic validator, whose source is not part of this development).
\<close>

definition update_only_ssarCreate ::
  "ResourceAttributes \<Rightarrow> unit \<Rightarrow> (SubjectAccessReviewStatus option \<times> error option) \<times> unit" where
  "update_only_ssarCreate resourceAttrib w =
     ((Some \<lparr>Allowed = (Verb resourceAttrib = ''update''), EvaluationError = []\<rparr>, None), w)"

definition direct_validator ::
  "PermissionValidator option \<Rightarrow> unit \<Rightarrow> unit \<Rightarrow> (ResourceAttributes, unit) Validator" where
  "direct_validator permissionValidator client mapper resource verb w =
     SelfSubjectAccessReviewValidator_ValidatePermissions update_only_ssarCreate
       (resource\<lparr>Verb := verb\<rparr>) w"

text \<open>
  For stating what the cached validator does: the key under which a check looks the cache
  up (the namespace, \<^verbatim>\<open>default\<close> for the empty one), the outcome of matching the rules,
  and the relation between the cache and the log that every check keeps: a namespace has
  one complete review in the log when it is in the cache, and none when it is not.
\<close>

definition cache_key :: "ResourceAttributes \<Rightarrow> string" where
  "cache_key resourceAttrib =
     (if Namespace resourceAttrib = [] then ''default'' else Namespace resourceAttrib)"

definition verdict ::
  "(AttributesRecord \<Rightarrow> PolicyRule list \<Rightarrow> bool) \<Rightarrow> ResourceAttributes \<Rightarrow> PolicyRule list \<Rightarrow>
     error option" where
  "verdict RulesAllow resourceAttrib rules =
     (if RulesAllow (attributes_record resourceAttrib) rules then None
      else Some (not_permitted resourceAttrib))"

definition cache_inv :: "(string \<rightharpoonup> PolicyRule list) \<Rightarrow> (string \<times> bool) list \<Rightarrow> bool" where
  "cache_inv cache log \<longleftrightarrow>
     (\<forall>ns. complete_queries ns log = (if cache ns = None then 0 else 1))"

section \<open>Properties of the change validations\<close>

lemma string_set_fold:
  "fold (\<lambda>x acc. if x \<notin> acc then insert x acc else acc) xs A = A \<union> set xs"
  by (induction xs arbitrary: A) (auto simp: insert_absorb)

lemma string_set_eq [simp]: "string_set xs = set xs"
  by (simp add: string_set_def string_set_fold)

lemma len_0_iff: "len xs = 0 \<longleftrightarrow> elems xs = []"
  by (simp add: len_def elems_def split: option.splits)

lemma len_pos_iff: "0 < len xs \<longleftrightarrow> elems xs \<noteq> []"
  by (simp add: len_def elems_def split: option.splits)

lemma set_Enum_sel [simp]:
  "ID (set_Enum v s) = ID s" "Type (set_Enum v s) = Type s" "Default (set_Enum v s) = Default s"
  "Enum (set_Enum v s) = v" "Required (set_Enum v s) = Required s"
  "Properties (set_Enum v s) = Properties s"
  by (cases s; simp)+

lemma set_Required_sel [simp]:
  "ID (set_Required v s) = ID s" "Type (set_Required v s) = Type s"
  "Default (set_Required v s) = Default s"
  "Enum (set_Required v s) = Enum s" "Required (set_Required v s) = v"
  "Properties (set_Required v s) = Properties s"
  by (cases s; simp)+

lemma set_Properties_sel [simp]:
  "ID (set_Properties v s) = ID s" "Type (set_Properties v s) = Type s"
  "Default (set_Properties v s) = Default s"
  "Enum (set_Properties v s) = Enum s" "Required (set_Properties v s) = Required s"
  "Properties (set_Properties v s) = v"
  by (cases s; simp)+

lemma wf_set_Enum [simp]: "wf_schema (set_Enum v s) = wf_schema s"
  by (cases s) simp

lemma wf_set_Required [simp]: "wf_schema (set_Required v s) = wf_schema s"
  by (cases s) simp

lemma set_Enum_twice [simp]: "set_Enum v (set_Enum w s) = set_Enum v s"
  by (cases s) simp

lemma set_Required_twice [simp]: "set_Required v (set_Required w s) = set_Required v s"
  by (cases s) simp

text \<open>On well-formed nodes \<open>DeepEqual\<close> is reflexive.\<close>

lemma DeepEqual_refl: "wf_schema s \<Longrightarrow> DeepEqual s s"
proof (induction s)
  case (JSONSchemaProps i t d e r ps)
  show ?case
  proof (cases ps)
    case None
    then show ?thesis by simp
  next
    case (Some xs)
    have dist: "distinct (map fst xs)" and wfs: "list_all (\<lambda>(k, v). wf_schema v) xs"
      using JSONSchemaProps.prems Some by simp_all
    have "list_all (\<lambda>(k, v). case map_of xs k of None \<Rightarrow> False | Some w \<Rightarrow> DeepEqual v w) xs"
      unfolding list_all_iff
    proof (rule ballI, clarify)
      fix k v assume kv: "(k, v) \<in> set xs"
      then have look: "map_of xs k = Some v" using dist by simp
      have wfv: "wf_schema v" using wfs kv by (auto simp: list_all_iff)
      have "DeepEqual v v"
        using JSONSchemaProps.IH[of xs "(k, v)" v] Some kv wfv by simp
      then show "case map_of xs k of None \<Rightarrow> False | Some w \<Rightarrow> DeepEqual v w"
        using look by simp
    qed
    then show ?thesis using Some by simp
  qed
qed

lemma EnumChangeValidation_err:
  "snd (fst (EnumChangeValidation diff)) =
     (if elems (Enum (Old diff)) = [] \<and> elems (Enum (New diff)) \<noteq> []
      then Some EnumsAddedWithoutPrevious
      else if set (elems (Enum (Old diff))) - set (elems (Enum (New diff))) \<noteq> {}
      then Some (EnumValuesRemoved (set (elems (Enum (Old diff))) - set (elems (Enum (New diff)))))
      else None)"
  by (simp add: EnumChangeValidation_def len_0_iff len_pos_iff Let_def split: prod.splits)

lemma EnumChangeValidation_handled:
  "fst (fst (EnumChangeValidation diff)) =
     DeepEqual (set_Enum (Some []) (Old diff)) (set_Enum (Some []) (New diff))"
  by (simp add: EnumChangeValidation_def handled_Enum_def Let_def split: prod.splits)

lemma EnumChangeValidation_diff:
  "snd (EnumChangeValidation diff) =
     diff\<lparr>Old := set_Enum (Some []) (Old diff), New := set_Enum (Some []) (New diff)\<rparr>"
  by (simp add: EnumChangeValidation_def handled_Enum_def Let_def split: prod.splits)

text \<open>
  C4. \<^verbatim>\<open>EnumChangeValidation\<close> returns the "enums added" error when the old node has no
  enum values and the new one has some; it returns the "enum values removed" error, with
  exactly the removed values, when a value of the old node is missing from the new one; it
  returns no error when the old node has enum values and all of them are kept, or when
  neither node has any; and when the new node is the old one with another \<^verbatim>\<open>Enum\<close> (only
  the enum changed) it reports handled, whatever the error.
\<close>

theorem EnumChangeValidation_verdict:
  "(len (Enum (Old diff)) = 0 \<and> 0 < len (Enum (New diff)) \<longrightarrow>
      snd (fst (EnumChangeValidation diff)) = Some EnumsAddedWithoutPrevious) \<and>
   (set (elems (Enum (Old diff))) - set (elems (Enum (New diff))) \<noteq> {} \<longrightarrow>
      snd (fst (EnumChangeValidation diff)) =
        Some (EnumValuesRemoved
               (set (elems (Enum (Old diff))) - set (elems (Enum (New diff)))))) \<and>
   (0 < len (Enum (Old diff)) \<and>
    set (elems (Enum (Old diff))) \<subseteq> set (elems (Enum (New diff))) \<longrightarrow>
      snd (fst (EnumChangeValidation diff)) = None) \<and>
   (len (Enum (Old diff)) = 0 \<and> len (Enum (New diff)) = 0 \<longrightarrow>
      snd (fst (EnumChangeValidation diff)) = None) \<and>
   (wf_schema (Old diff) \<and> New diff = set_Enum enum (Old diff) \<longrightarrow>
      fst (fst (EnumChangeValidation diff)))"
  unfolding EnumChangeValidation_err EnumChangeValidation_handled
  by (auto simp: len_0_iff len_pos_iff DeepEqual_refl)

theorem EnumChangeValidation_verdict_witness:
  "EnumChangeValidation
     \<lparr>Old = JSONSchemaProps [] [] None None None None,
      New = JSONSchemaProps [] [] None (Some [''foo'']) None None\<rparr>
     = ((True, Some EnumsAddedWithoutPrevious),
        \<lparr>Old = JSONSchemaProps [] [] None (Some []) None None,
         New = JSONSchemaProps [] [] None (Some []) None None\<rparr>) \<and>
   snd (fst (EnumChangeValidation
     \<lparr>Old = JSONSchemaProps [] [] None (Some [''foo'', ''bar'']) None None,
      New = JSONSchemaProps [] [] None (Some [''bar'']) None None\<rparr>))
     = Some (EnumValuesRemoved {''foo''}) \<and>
   fst (EnumChangeValidation
     \<lparr>Old = JSONSchemaProps [] [] None (Some [''foo'']) None None,
      New = JSONSchemaProps [] [] None (Some [''foo'', ''bar'']) None None\<rparr>)
     = (True, None) \<and>
   snd (fst (EnumChangeValidation
     \<lparr>Old = JSONSchemaProps ''bar'' [] None None None None,
      New = JSONSchemaProps ''baz'' [] None None None None\<rparr>))
     = None"
proof -
  let ?none = "JSONSchemaProps [] [] None None None None"
  let ?foo = "JSONSchemaProps [] [] None (Some [''foo'']) None None"
  let ?foobar = "JSONSchemaProps [] [] None (Some [''foo'', ''bar'']) None None"
  let ?bar = "JSONSchemaProps [] [] None (Some [''bar'']) None None"
  have a: "snd (fst (EnumChangeValidation \<lparr>Old = ?none, New = ?foo\<rparr>))
             = Some EnumsAddedWithoutPrevious"
          "fst (fst (EnumChangeValidation \<lparr>Old = ?none, New = ?foo\<rparr>))"
    using EnumChangeValidation_verdict [of "\<lparr>Old = ?none, New = ?foo\<rparr>" "Some [''foo'']"]
    by (simp_all add: len_def)
  have a': "snd (EnumChangeValidation \<lparr>Old = ?none, New = ?foo\<rparr>)
             = \<lparr>Old = JSONSchemaProps [] [] None (Some []) None None,
                New = JSONSchemaProps [] [] None (Some []) None None\<rparr>"
    by (simp add: EnumChangeValidation_diff)
  have b: "snd (fst (EnumChangeValidation \<lparr>Old = ?foobar, New = ?bar\<rparr>))
             = Some (EnumValuesRemoved {''foo''})"
    using EnumChangeValidation_verdict [of "\<lparr>Old = ?foobar, New = ?bar\<rparr>" None]
    by (simp add: elems_def len_def insert_Diff_if)
  have c: "snd (fst (EnumChangeValidation \<lparr>Old = ?foo, New = ?foobar\<rparr>)) = None"
          "fst (fst (EnumChangeValidation \<lparr>Old = ?foo, New = ?foobar\<rparr>))"
    using EnumChangeValidation_verdict
            [of "\<lparr>Old = ?foo, New = ?foobar\<rparr>" "Some [''foo'', ''bar'']"]
    by (simp_all add: elems_def len_def)
  have d: "snd (fst (EnumChangeValidation
             \<lparr>Old = JSONSchemaProps ''bar'' [] None None None None,
              New = JSONSchemaProps ''baz'' [] None None None None\<rparr>)) = None"
    using EnumChangeValidation_verdict
            [of "\<lparr>Old = JSONSchemaProps ''bar'' [] None None None None,
                  New = JSONSchemaProps ''baz'' [] None None None None\<rparr>" None]
    by (simp add: len_def)
  show ?thesis
    using a a' b c d by (simp add: prod_eq_iff)
qed

lemma RequiredFieldChangeValidation_err:
  "snd (fst (RequiredFieldChangeValidation diff)) =
     (if elems (Required (Old diff)) = [] \<and> elems (Required (New diff)) \<noteq> []
      then Some NewRequiredWithoutPrevious
      else if set (elems (Required (New diff))) - set (elems (Required (Old diff))) \<noteq> {}
      then Some (NewRequiredFieldsAdded
                  (set (elems (Required (New diff))) - set (elems (Required (Old diff)))))
      else None)"
  by (simp add: RequiredFieldChangeValidation_def len_0_iff len_pos_iff Let_def split: prod.splits)

lemma RequiredFieldChangeValidation_handled:
  "fst (fst (RequiredFieldChangeValidation diff)) =
     DeepEqual (set_Required (Some []) (Old diff)) (set_Required (Some []) (New diff))"
  by (simp add: RequiredFieldChangeValidation_def handled_Required_def Let_def split: prod.splits)

lemma RequiredFieldChangeValidation_diff:
  "snd (RequiredFieldChangeValidation diff) =
     diff\<lparr>Old := set_Required (Some []) (Old diff), New := set_Required (Some []) (New diff)\<rparr>"
  by (simp add: RequiredFieldChangeValidation_def handled_Required_def Let_def split: prod.splits)

text \<open>
  C5. \<^verbatim>\<open>RequiredFieldChangeValidation\<close> returns an error when the old node has no
  required names and the new one has some; it returns the "new required fields added"
  error, with exactly the added names, when the old node has required names and the new
  one has a name that is not among them; it returns no error when every required name of
  the new node is one of the old node (names only removed, or the set unchanged); and
  when the new node is the old one with another \<^verbatim>\<open>Required\<close> (only the required names
  changed) it reports handled, whatever the error.
\<close>

theorem RequiredFieldChangeValidation_verdict:
  "(len (Required (Old diff)) = 0 \<and> 0 < len (Required (New diff)) \<longrightarrow>
      snd (fst (RequiredFieldChangeValidation diff)) = Some NewRequiredWithoutPrevious) \<and>
   (0 < len (Required (Old diff)) \<and>
    set (elems (Required (New diff))) - set (elems (Required (Old diff))) \<noteq> {} \<longrightarrow>
      snd (fst (RequiredFieldChangeValidation diff)) =
        Some (NewRequiredFieldsAdded
               (set (elems (Required (New diff))) - set (elems (Required (Old diff)))))) \<and>
   (set (elems (Required (New diff))) \<subseteq> set (elems (Required (Old diff))) \<longrightarrow>
      snd (fst (RequiredFieldChangeValidation diff)) = None) \<and>
   (wf_schema (Old diff) \<and> New diff = set_Required required (Old diff) \<longrightarrow>
      fst (fst (RequiredFieldChangeValidation diff)))"
  unfolding RequiredFieldChangeValidation_err RequiredFieldChangeValidation_handled
  by (auto simp: len_0_iff len_pos_iff DeepEqual_refl)

theorem RequiredFieldChangeValidation_verdict_witness:
  "fst (RequiredFieldChangeValidation
     \<lparr>Old = JSONSchemaProps [] [] None None None None,
      New = JSONSchemaProps [] [] None None (Some [''foo'']) None\<rparr>)
     = (True, Some NewRequiredWithoutPrevious) \<and>
   fst (RequiredFieldChangeValidation
     \<lparr>Old = JSONSchemaProps [] [] None None (Some [''foo'']) None,
      New = JSONSchemaProps [] [] None None (Some [''foo'', ''bar'']) None\<rparr>)
     = (True, Some (NewRequiredFieldsAdded {''bar''})) \<and>
   fst (RequiredFieldChangeValidation
     \<lparr>Old = JSONSchemaProps [] [] None None (Some [''foo'', ''bar'']) None,
      New = JSONSchemaProps [] [] None None (Some [''bar'']) None\<rparr>)
     = (True, None)"
proof -
  let ?none = "JSONSchemaProps [] [] None None None None"
  let ?foo = "JSONSchemaProps [] [] None None (Some [''foo'']) None"
  let ?foobar = "JSONSchemaProps [] [] None None (Some [''foo'', ''bar'']) None"
  let ?bar = "JSONSchemaProps [] [] None None (Some [''bar'']) None"
  have a: "snd (fst (RequiredFieldChangeValidation \<lparr>Old = ?none, New = ?foo\<rparr>))
             = Some NewRequiredWithoutPrevious"
          "fst (fst (RequiredFieldChangeValidation \<lparr>Old = ?none, New = ?foo\<rparr>))"
    using RequiredFieldChangeValidation_verdict
            [of "\<lparr>Old = ?none, New = ?foo\<rparr>" "Some [''foo'']"]
    by (simp_all add: len_def)
  have b: "snd (fst (RequiredFieldChangeValidation \<lparr>Old = ?foo, New = ?foobar\<rparr>))
             = Some (NewRequiredFieldsAdded {''bar''})"
          "fst (fst (RequiredFieldChangeValidation \<lparr>Old = ?foo, New = ?foobar\<rparr>))"
    using RequiredFieldChangeValidation_verdict
            [of "\<lparr>Old = ?foo, New = ?foobar\<rparr>" "Some [''foo'', ''bar'']"]
    by (simp_all add: elems_def len_def insert_Diff_if)
  have c: "snd (fst (RequiredFieldChangeValidation \<lparr>Old = ?foobar, New = ?bar\<rparr>)) = None"
          "fst (fst (RequiredFieldChangeValidation \<lparr>Old = ?foobar, New = ?bar\<rparr>))"
    using RequiredFieldChangeValidation_verdict
            [of "\<lparr>Old = ?foobar, New = ?bar\<rparr>" "Some [''bar'']"]
    by (simp_all add: elems_def len_def)
  show ?thesis
    using a b c by (simp add: prod_eq_iff)
qed

section \<open>Properties of the validation chain\<close>

lemma run_validations_prefix:
  "run_validations vs version field diff w errs = (h, errs', diff', w') \<Longrightarrow>
   \<exists>k ress. k \<le> length vs \<and> invoke_in_order (take k vs) diff w = (ress, diff', w') \<and>
     (\<forall>r \<in> set (butlast ress). \<not> fst r) \<and>
     errs' = errs @ reported version field ress \<and>
     (if h then ress \<noteq> [] \<and> fst (last ress)
      else k = length vs \<and> (\<forall>r \<in> set ress. \<not> fst r))"
proof (induction vs arbitrary: diff w errs)
  case Nil
  then show ?case by (auto simp: reported_def)
next
  case (Cons v vs)
  obtain ok err d1 w1 where v: "v diff w = ((ok, err), d1, w1)"
    by (cases "v diff w") auto
  let ?e1 = "case err of None \<Rightarrow> errs | Some e \<Rightarrow> errs @ [VersionFieldError version field e]"
  have e1: "?e1 = errs @ reported version field [(ok, err)]"
    by (simp add: reported_def split: option.splits)
  show ?case
  proof (cases ok)
    case True
    with Cons.prems v have res: "h" "errs' = ?e1" "diff' = d1" "w' = w1" by simp_all
    have "invoke_in_order (take 1 (v # vs)) diff w = ([(ok, err)], diff', w')"
      using v res by simp
    then show ?thesis
      using res e1 True
      by (intro exI[of _ 1] exI[of _ "[(ok, err)]"]) simp
  next
    case False
    with Cons.prems v have "run_validations vs version field d1 w1 ?e1 = (h, errs', diff', w')"
      by simp
    from Cons.IH[OF this] obtain k ress where
      k: "k \<le> length vs" and inv: "invoke_in_order (take k vs) d1 w1 = (ress, diff', w')"
      and bl: "\<forall>r \<in> set (butlast ress). \<not> fst r"
      and er: "errs' = ?e1 @ reported version field ress"
      and fin: "if h then ress \<noteq> [] \<and> fst (last ress)
                else k = length vs \<and> (\<forall>r \<in> set ress. \<not> fst r)"
      by blast
    have inv': "invoke_in_order (take (Suc k) (v # vs)) diff w = ((ok, err) # ress, diff', w')"
      using v inv by simp
    have bl': "\<forall>r \<in> set (butlast ((ok, err) # ress)). \<not> fst r"
      using bl False by (auto split: if_splits)
    have er': "errs' = errs @ reported version field ((ok, err) # ress)"
      using er e1 by (simp add: reported_def)
    have fin': "if h then (ok, err) # ress \<noteq> [] \<and> fst (last ((ok, err) # ress))
                else Suc k = length (v # vs) \<and> (\<forall>r \<in> set ((ok, err) # ress). \<not> fst r)"
      using fin False by (auto split: if_splits)
    show ?thesis
      using k inv' bl' er' fin'
      by (intro exI[of _ "Suc k"] exI[of _ "(ok, err) # ress"]) simp
  qed
qed

text \<open>
  C2. For one field diff, the validations that \<^verbatim>\<open>Validate\<close> invokes are the first \<open>k\<close>
  of the configured list, in order, each on the state the one before left. None of them
  but the last returned handled. If one returned handled it is the last one invoked, and
  the errors recorded are the errors the invoked validations returned, wrapped with the
  version and the field; otherwise all validations were invoked and the "unknown change"
  error for this version and field is recorded after them, also when none returned an
  error.
\<close>

theorem validate_field_chain:
  "\<exists>k ress. k \<le> length validations \<and>
     invoke_in_order (take k validations) diff w =
       (ress, snd (validate_field validations version field diff w errs)) \<and>
     (\<forall>r \<in> set (butlast ress). \<not> fst r) \<and>
     (if \<exists>r \<in> set ress. fst r
      then fst (last ress) \<and>
           fst (validate_field validations version field diff w errs) =
             errs @ reported version field ress
      else k = length validations \<and>
           fst (validate_field validations version field diff w errs) =
             errs @ reported version field ress @ [UnknownChange version field])"
proof -
  obtain h errs' diff' w' where
    run: "run_validations validations version field diff w errs = (h, errs', diff', w')"
    by (cases "run_validations validations version field diff w errs") auto
  from run_validations_prefix[OF run] obtain k ress where
    all: "k \<le> length validations \<and>
          invoke_in_order (take k validations) diff w = (ress, diff', w') \<and>
          (\<forall>r \<in> set (butlast ress). \<not> fst r) \<and>
          errs' = errs @ reported version field ress \<and>
          (if h then ress \<noteq> [] \<and> fst (last ress)
           else k = length validations \<and> (\<forall>r \<in> set ress. \<not> fst r))"
    by (elim exE)
  from all have k: "k \<le> length validations" by (rule conjunct1)
  from all have inv: "invoke_in_order (take k validations) diff w = (ress, diff', w')"
    by (elim conjE)
  from all have bl: "\<forall>r \<in> set (butlast ress). \<not> fst r"
    by (elim conjE)
  from all have er: "errs' = errs @ reported version field ress"
    by (elim conjE)
  from all have fin: "if h then ress \<noteq> [] \<and> fst (last ress)
              else k = length validations \<and> (\<forall>r \<in> set ress. \<not> fst r)"
    by (elim conjE)
  have vf: "validate_field validations version field diff w errs =
              (if \<not> h then errs' @ [UnknownChange version field] else errs', diff', w')"
    using run by (simp add: validate_field_def)
  have hiff: "h \<longleftrightarrow> (\<exists>r \<in> set ress. fst r)"
  proof (cases h)
    case True
    with fin have "ress \<noteq> []" "fst (last ress)" by simp_all
    then have "last ress \<in> set ress" "fst (last ress)" by simp_all
    then show ?thesis using True by blast
  next
    case False
    with fin show ?thesis by simp
  qed
  have snd_vf: "snd (validate_field validations version field diff w errs) = (diff', w')"
    by (simp add: vf)
  have fst_vf: "fst (validate_field validations version field diff w errs) =
                  (if h then errs' else errs' @ [UnknownChange version field])"
    by (simp add: vf)
  have last_part:
    "if \<exists>r \<in> set ress. fst r
     then fst (last ress) \<and>
          fst (validate_field validations version field diff w errs) =
            errs @ reported version field ress
     else k = length validations \<and>
          fst (validate_field validations version field diff w errs) =
            errs @ reported version field ress @ [UnknownChange version field]"
  proof (cases h)
    case True
    have ex: "\<exists>r \<in> set ress. fst r" using hiff True by simp
    have l: "fst (last ress)" using fin True by (simp only: if_True)
    have e: "fst (validate_field validations version field diff w errs) =
               errs @ reported version field ress"
      using fst_vf True er by (simp only: if_True)
    show ?thesis by (simp only: ex l e if_True simp_thms)
  next
    case False
    have ex: "\<not> (\<exists>r \<in> set ress. fst r)" using hiff False by simp
    have l: "k = length validations" using fin False by (simp only: if_False)
    have e: "fst (validate_field validations version field diff w errs) =
               errs @ reported version field ress @ [UnknownChange version field]"
      using fst_vf False er by (simp only: if_False append_assoc)
    show ?thesis using l e by (simp only: ex if_False simp_thms)
  qed
  have inv': "invoke_in_order (take k validations) diff w =
               (ress, snd (validate_field validations version field diff w errs))"
    using inv snd_vf by simp
  from k inv' bl last_part
  have "k \<le> length validations \<and>
     invoke_in_order (take k validations) diff w =
       (ress, snd (validate_field validations version field diff w errs)) \<and>
     (\<forall>r \<in> set (butlast ress). \<not> fst r) \<and>
     (if \<exists>r \<in> set ress. fst r
      then fst (last ress) \<and>
           fst (validate_field validations version field diff w errs) =
             errs @ reported version field ress
      else k = length validations \<and>
           fst (validate_field validations version field diff w errs) =
             errs @ reported version field ress @ [UnknownChange version field])"
    by (intro conjI)
  then show ?thesis by (intro exI)
qed

theorem validate_field_chain_witness:
  "validate_field
     [fixed_validation True None, fixed_validation False (Some (External ''should not run''))]
     ''v1alpha1'' ''^''
     \<lparr>Old = JSONSchemaProps [] [] None None None None,
      New = JSONSchemaProps ''foo'' [] None None None None\<rparr> 0 []
   = ([], \<lparr>Old = JSONSchemaProps [] [] None None None None,
            New = JSONSchemaProps ''foo'' [] None None None None\<rparr>, 1) \<and>
   validate_field [fixed_validation False None] ''v1alpha1'' ''^''
     \<lparr>Old = JSONSchemaProps [] [] None None None None,
      New = JSONSchemaProps ''foo'' [] None None None None\<rparr> 0 []
   = ([UnknownChange ''v1alpha1'' ''^''],
      \<lparr>Old = JSONSchemaProps [] [] None None None None,
       New = JSONSchemaProps ''foo'' [] None None None None\<rparr>, 1) \<and>
   (\<exists>k ress. k \<le> length [fixed_validation False None] \<and>
     invoke_in_order (take k [fixed_validation False None])
       \<lparr>Old = JSONSchemaProps [] [] None None None None,
        New = JSONSchemaProps ''foo'' [] None None None None\<rparr> 0 =
       (ress, snd (validate_field [fixed_validation False None] ''v1alpha1'' ''^''
          \<lparr>Old = JSONSchemaProps [] [] None None None None,
           New = JSONSchemaProps ''foo'' [] None None None None\<rparr> 0 [])) \<and>
     (\<forall>r \<in> set (butlast ress). \<not> fst r) \<and>
     (if \<exists>r \<in> set ress. fst r
      then fst (last ress) \<and>
           fst (validate_field [fixed_validation False None] ''v1alpha1'' ''^''
             \<lparr>Old = JSONSchemaProps [] [] None None None None,
              New = JSONSchemaProps ''foo'' [] None None None None\<rparr> 0 []) =
             [] @ reported ''v1alpha1'' ''^'' ress
      else k = length [fixed_validation False None] \<and>
           fst (validate_field [fixed_validation False None] ''v1alpha1'' ''^''
             \<lparr>Old = JSONSchemaProps [] [] None None None None,
              New = JSONSchemaProps ''foo'' [] None None None None\<rparr> 0 []) =
             [] @ reported ''v1alpha1'' ''^'' ress @ [UnknownChange ''v1alpha1'' ''^'']))"
proof (intro conjI)
  show "\<exists>k ress. k \<le> length [fixed_validation False None] \<and>
     invoke_in_order (take k [fixed_validation False None])
       \<lparr>Old = JSONSchemaProps [] [] None None None None,
        New = JSONSchemaProps ''foo'' [] None None None None\<rparr> 0 =
       (ress, snd (validate_field [fixed_validation False None] ''v1alpha1'' ''^''
          \<lparr>Old = JSONSchemaProps [] [] None None None None,
           New = JSONSchemaProps ''foo'' [] None None None None\<rparr> 0 [])) \<and>
     (\<forall>r \<in> set (butlast ress). \<not> fst r) \<and>
     (if \<exists>r \<in> set ress. fst r
      then fst (last ress) \<and>
           fst (validate_field [fixed_validation False None] ''v1alpha1'' ''^''
             \<lparr>Old = JSONSchemaProps [] [] None None None None,
              New = JSONSchemaProps ''foo'' [] None None None None\<rparr> 0 []) =
             [] @ reported ''v1alpha1'' ''^'' ress
      else k = length [fixed_validation False None] \<and>
           fst (validate_field [fixed_validation False None] ''v1alpha1'' ''^''
             \<lparr>Old = JSONSchemaProps [] [] None None None None,
              New = JSONSchemaProps ''foo'' [] None None None None\<rparr> 0 []) =
             [] @ reported ''v1alpha1'' ''^'' ress @ [UnknownChange ''v1alpha1'' ''^''])"
    by (rule validate_field_chain)
qed (simp_all add: validate_field_def fixed_validation_def)

lemma stateless_apply:
  "stateless validation diff w = (fst (validation diff), snd (validation diff), w)"
  by (simp add: stateless_def split: prod.splits)

lemma run_validations_stateless:
  "run_validations (stateless validation # rest) version field diff w errs =
     (if fst (fst (validation diff))
      then (True, errs @ reported version field [fst (validation diff)], snd (validation diff), w)
      else run_validations rest version field (snd (validation diff)) w
             (errs @ reported version field [fst (validation diff)]))"
  by (cases "validation diff")
     (auto simp: stateless_def reported_def split: option.splits)

text \<open>
  C10. On every return path \<^verbatim>\<open>EnumChangeValidation\<close> leaves both nodes of the diff with
  the empty \<^verbatim>\<open>Enum\<close> and \<^verbatim>\<open>RequiredFieldChangeValidation\<close> leaves both with the empty
  \<^verbatim>\<open>Required\<close>, every other field as it was; the flag each returns is \<^verbatim>\<open>DeepEqual\<close> of
  the two nodes after the clearing; and in the chain the diff as the validation left it is
  what the next validation is called on.
\<close>

theorem validations_clear_in_place:
  "snd (EnumChangeValidation diff) =
     \<lparr>Old = set_Enum (Some []) (Old diff), New = set_Enum (Some []) (New diff)\<rparr> \<and>
   Enum (Old (snd (EnumChangeValidation diff))) = Some [] \<and>
   Enum (New (snd (EnumChangeValidation diff))) = Some [] \<and>
   fst (fst (EnumChangeValidation diff)) =
     DeepEqual (Old (snd (EnumChangeValidation diff))) (New (snd (EnumChangeValidation diff))) \<and>
   snd (RequiredFieldChangeValidation diff) =
     \<lparr>Old = set_Required (Some []) (Old diff), New = set_Required (Some []) (New diff)\<rparr> \<and>
   Required (Old (snd (RequiredFieldChangeValidation diff))) = Some [] \<and>
   Required (New (snd (RequiredFieldChangeValidation diff))) = Some [] \<and>
   fst (fst (RequiredFieldChangeValidation diff)) =
     DeepEqual (Old (snd (RequiredFieldChangeValidation diff)))
       (New (snd (RequiredFieldChangeValidation diff))) \<and>
   run_validations (stateless EnumChangeValidation # rest) version field diff w errs =
     (if fst (fst (EnumChangeValidation diff))
      then (True, errs @ reported version field [fst (EnumChangeValidation diff)],
            snd (EnumChangeValidation diff), w)
      else run_validations rest version field (snd (EnumChangeValidation diff)) w
             (errs @ reported version field [fst (EnumChangeValidation diff)])) \<and>
   run_validations (stateless RequiredFieldChangeValidation # rest) version field diff w errs =
     (if fst (fst (RequiredFieldChangeValidation diff))
      then (True, errs @ reported version field [fst (RequiredFieldChangeValidation diff)],
            snd (RequiredFieldChangeValidation diff), w)
      else run_validations rest version field (snd (RequiredFieldChangeValidation diff)) w
             (errs @ reported version field [fst (RequiredFieldChangeValidation diff)]))"
  by (intro conjI)
     (simp_all only: run_validations_stateless,
      simp_all add: EnumChangeValidation_diff EnumChangeValidation_handled
        RequiredFieldChangeValidation_diff RequiredFieldChangeValidation_handled)

theorem validations_clear_in_place_witness:
  "EnumChangeValidation
     \<lparr>Old = JSONSchemaProps ''bar'' [] None (Some [''foo'']) None None,
      New = JSONSchemaProps ''baz'' [] None (Some [''foo'']) None None\<rparr>
   = ((False, None),
      \<lparr>Old = JSONSchemaProps ''bar'' [] None (Some []) None None,
       New = JSONSchemaProps ''baz'' [] None (Some []) None None\<rparr>) \<and>
   RequiredFieldChangeValidation
     \<lparr>Old = JSONSchemaProps [] [] None None None None,
      New = JSONSchemaProps [] [] None None (Some [''a'']) None\<rparr>
   = ((True, Some NewRequiredWithoutPrevious),
      \<lparr>Old = JSONSchemaProps [] [] None None (Some []) None,
       New = JSONSchemaProps [] [] None None (Some []) None\<rparr>)"
proof -
  let ?d = "\<lparr>Old = JSONSchemaProps ''bar'' [] None (Some [''foo'']) None None,
      New = JSONSchemaProps ''baz'' [] None (Some [''foo'']) None None\<rparr>"
  let ?r = "\<lparr>Old = JSONSchemaProps [] [] None None None None,
      New = JSONSchemaProps [] [] None None (Some [''a'']) None\<rparr>"
  have a: "snd (EnumChangeValidation ?d) =
      \<lparr>Old = JSONSchemaProps ''bar'' [] None (Some []) None None,
       New = JSONSchemaProps ''baz'' [] None (Some []) None None\<rparr>"
    "fst (fst (EnumChangeValidation ?d)) = False"
    using validations_clear_in_place [of ?d "[]" "''v''" "''f''" "()" "[]"]
    by simp_all
  have b: "snd (RequiredFieldChangeValidation ?r) =
      \<lparr>Old = JSONSchemaProps [] [] None None (Some []) None,
       New = JSONSchemaProps [] [] None None (Some []) None\<rparr>"
    "fst (fst (RequiredFieldChangeValidation ?r)) = True"
    using validations_clear_in_place [of ?r "[]" "''v''" "''f''" "()" "[]"]
    by simp_all
  have c: "snd (fst (EnumChangeValidation ?d)) = None"
    by (simp add: EnumChangeValidation_err elems_def)
  have d: "snd (fst (RequiredFieldChangeValidation ?r)) = Some NewRequiredWithoutPrevious"
    by (simp add: RequiredFieldChangeValidation_err elems_def)
  show ?thesis using a b c d by (simp add: prod_eq_iff)
qed

section \<open>Properties of the flat schema diff\<close>

lemma DeepEqual_cleared:
  "DeepEqual (set_Properties None a) (set_Properties None b) \<longleftrightarrow>
     set_Properties None a = set_Properties None b"
  by (cases a; cases b) auto

lemma loop_missing:
  "filter (\<lambda>p. map_of n p = None) (map fst old) \<noteq> [] \<Longrightarrow>
   snd (CalculateFlatSchemaDiff_loop old n acc) =
     Some (FieldNotFoundInNew (hd (filter (\<lambda>p. map_of n p = None) (map fst old))))"
proof (induction old arbitrary: acc)
  case Nil
  then show ?case by simp
next
  case (Cons a old)
  obtain field schema where a: "a = (field, schema)" by (cases a)
  show ?case
  proof (cases "map_of n field")
    case None
    then show ?thesis using a by simp
  next
    case (Some newSchema)
    with Cons.prems a have "filter (\<lambda>p. map_of n p = None) (map fst old) \<noteq> []" by simp
    from Cons.IH[OF this] show ?thesis using a Some by (simp add: Let_def)
  qed
qed

lemma loop_complete:
  "filter (\<lambda>p. map_of n p = None) (map fst old) = [] \<Longrightarrow> distinct (map fst old) \<Longrightarrow>
   snd (CalculateFlatSchemaDiff_loop old n acc) = None \<and>
   map_of (fst (CalculateFlatSchemaDiff_loop old n acc)) path =
     (case map_of old path of
        None \<Rightarrow> map_of acc path
      | Some s \<Rightarrow>
          (case map_of n path of
             None \<Rightarrow> None
           | Some s' \<Rightarrow>
               if set_Properties None s = set_Properties None s' then map_of acc path
               else Some \<lparr>Old = set_Properties None s, New = set_Properties None s'\<rparr>))"
proof (induction old arbitrary: acc)
  case Nil
  then show ?case by simp
next
  case (Cons a old)
  obtain field schema where a: "a = (field, schema)" by (cases a)
  from Cons.prems a obtain newSchema where ns: "map_of n field = Some newSchema"
    by (cases "map_of n field") auto
  have rest: "filter (\<lambda>p. map_of n p = None) (map fst old) = []" "distinct (map fst old)"
    and fresh: "map_of old field = None"
  proof -
    have inn: "field \<in> fst ` set n"
      using ns by (metis map_of_eq_None_iff option.distinct(1))
    show "filter (\<lambda>p. map_of n p = None) (map fst old) = []"
      using Cons.prems(1) a inn by (simp split: if_splits)
    show "distinct (map fst old)" using Cons.prems(2) by simp
    show "map_of old field = None"
      using Cons.prems(2) a by (simp add: map_of_eq_None_iff)
  qed
  define acc' where
    "acc' = (if set_Properties None schema \<noteq> set_Properties None newSchema
             then AList.update field
                    \<lparr>Old = set_Properties None schema, New = set_Properties None newSchema\<rparr> acc
             else acc)"
  have step: "CalculateFlatSchemaDiff_loop (a # old) n acc = CalculateFlatSchemaDiff_loop old n acc'"
    using a ns by (simp add: Let_def DeepCopy_def DeepEqual_cleared acc'_def)
  have accp: "path \<noteq> field \<Longrightarrow> map_of acc' path = map_of acc path"
    by (simp add: acc'_def update_conv')
  have accf: "map_of acc' field =
                (if set_Properties None schema = set_Properties None newSchema
                 then map_of acc field
                 else Some \<lparr>Old = set_Properties None schema,
                            New = set_Properties None newSchema\<rparr>)"
    by (simp add: acc'_def update_conv')
  note IH = Cons.IH[OF rest, of acc']
  show ?case
  proof (cases "path = field")
    case True
    then show ?thesis
      unfolding step using IH fresh ns a accf by simp
  next
    case False
    then show ?thesis
      unfolding step using IH a accp by (simp split: option.splits)
  qed
qed

lemma loop_keys:
  "set (map fst (fst (CalculateFlatSchemaDiff_loop old n acc))) \<subseteq> set (map fst acc) \<union> set (map fst old) \<and>
   (distinct (map fst acc) \<longrightarrow> distinct (map fst (fst (CalculateFlatSchemaDiff_loop old n acc))))"
proof (induction old arbitrary: acc)
  case Nil
  then show ?case by simp
next
  case (Cons a old)
  obtain field schema where a: "a = (field, schema)" by (cases a)
  show ?case
  proof (cases "map_of n field")
    case None
    then show ?thesis using a by auto
  next
    case (Some newSchema)
    define acc' where
      "acc' = (if \<not> DeepEqual (set_Properties None (DeepCopy schema))
                        (set_Properties None (DeepCopy newSchema))
               then AList.update field
                      \<lparr>Old = set_Properties None (DeepCopy schema),
                       New = set_Properties None (DeepCopy newSchema)\<rparr> acc
               else acc)"
    have step: "CalculateFlatSchemaDiff_loop (a # old) n acc =
                  CalculateFlatSchemaDiff_loop old n acc'"
      using a Some by (simp add: Let_def acc'_def)
    have k: "set (map fst acc') \<subseteq> insert field (set (map fst acc))"
      by (auto simp: acc'_def dom_update image_iff)
    have d: "distinct (map fst acc) \<longrightarrow> distinct (map fst acc')"
      by (simp add: acc'_def distinct_update)
    have IH1: "set (map fst (fst (CalculateFlatSchemaDiff_loop old n acc'))) \<subseteq>
                 set (map fst acc') \<union> set (map fst old)"
      and IH2: "distinct (map fst acc') \<longrightarrow>
                 distinct (map fst (fst (CalculateFlatSchemaDiff_loop old n acc')))"
      using Cons.IH[of acc'] by simp_all
    have f: "set (map fst (a # old)) = insert field (set (map fst old))"
      using a by simp
    show ?thesis
      unfolding step f using IH1 IH2 k d by blast
  qed
qed


text \<open>
  C3, as the code has it. When a path of the old flat schema is absent from the new one,
  \<^verbatim>\<open>CalculateFlatSchemaDiff\<close> returns the error naming the first such path in the order of
  the \<^verbatim>\<open>range\<close>. Otherwise it returns no error, and the diff map has an entry at a path
  exactly when the path is in both schemas and the two nodes differ once their
  \<^verbatim>\<open>Properties\<close> are set to nil; the entry is the pair of these copies; a path of the new
  schema alone gets no entry. So the diff of \<open>{p: X}\<close> and \<open>{}\<close> is the error naming
  \<open>p\<close>, the diff of \<open>{p: X}\<close> and \<open>{p: X}\<close> is empty, and the diff of \<open>{p: X}\<close> and
  \<open>{p: Y}\<close> is the one entry at \<open>p\<close> when \<open>X\<close> and \<open>Y\<close> differ in something other than
  their \<^verbatim>\<open>Properties\<close>, and empty when they differ in their \<^verbatim>\<open>Properties\<close> only.
\<close>

theorem CalculateFlatSchemaDiff_result:
  "(filter (\<lambda>p. map_of new p = None) (map fst old) \<noteq> [] \<longrightarrow>
      snd (CalculateFlatSchemaDiff old new) =
        Some (FieldNotFoundInNew (hd (filter (\<lambda>p. map_of new p = None) (map fst old)))) \<and>
      hd (filter (\<lambda>p. map_of new p = None) (map fst old)) \<in> set (map fst old) \<and>
      map_of new (hd (filter (\<lambda>p. map_of new p = None) (map fst old))) = None) \<and>
   (distinct (map fst old) \<and> (\<forall>p \<in> set (map fst old). map_of new p \<noteq> None) \<longrightarrow>
      snd (CalculateFlatSchemaDiff old new) = None \<and>
      distinct (map fst (fst (CalculateFlatSchemaDiff old new))) \<and>
      (\<forall>path. map_of (fst (CalculateFlatSchemaDiff old new)) path =
         (case map_of old path of
            None \<Rightarrow> None
          | Some s \<Rightarrow>
              (case map_of new path of
                 None \<Rightarrow> None
               | Some s' \<Rightarrow>
                   if set_Properties None s = set_Properties None s' then None
                   else Some \<lparr>Old = set_Properties None s, New = set_Properties None s'\<rparr>)))) \<and>
   CalculateFlatSchemaDiff [(p, X)] [] = ([], Some (FieldNotFoundInNew p)) \<and>
   CalculateFlatSchemaDiff [(p, X)] [(p, X)] = ([], None) \<and>
   CalculateFlatSchemaDiff [(p, X)] [(p, Y)] =
     (if set_Properties None X = set_Properties None Y then []
      else [(p, \<lparr>Old = set_Properties None X, New = set_Properties None Y\<rparr>)], None)"
proof (intro conjI impI allI)
  let ?missing = "filter (\<lambda>p. map_of new p = None) (map fst old)"
  {
    assume m: "?missing \<noteq> []"
    show "snd (CalculateFlatSchemaDiff old new) = Some (FieldNotFoundInNew (hd ?missing))"
      unfolding CalculateFlatSchemaDiff_def by (rule loop_missing[OF m])
    have "hd ?missing \<in> set ?missing" using m by (rule hd_in_set)
    then show "hd ?missing \<in> set (map fst old)" "map_of new (hd ?missing) = None"
      by simp_all
  }
  {
    assume h: "distinct (map fst old) \<and> (\<forall>p \<in> set (map fst old). map_of new p \<noteq> None)"
    then have e: "?missing = []" and d: "distinct (map fst old)"
      by (simp_all add: filter_empty_conv)
    show "snd (CalculateFlatSchemaDiff old new) = None"
      unfolding CalculateFlatSchemaDiff_def using loop_complete[OF e d, of "[]"] by simp
    show "distinct (map fst (fst (CalculateFlatSchemaDiff old new)))"
      unfolding CalculateFlatSchemaDiff_def using loop_keys[of old new "[]"] by simp
    fix path
    show "map_of (fst (CalculateFlatSchemaDiff old new)) path =
         (case map_of old path of
            None \<Rightarrow> None
          | Some s \<Rightarrow>
              (case map_of new path of
                 None \<Rightarrow> None
               | Some s' \<Rightarrow>
                   if set_Properties None s = set_Properties None s' then None
                   else Some \<lparr>Old = set_Properties None s, New = set_Properties None s'\<rparr>))"
      unfolding CalculateFlatSchemaDiff_def using loop_complete[OF e d, of "[]" path]
      by (simp split: option.splits)
  }
  show "CalculateFlatSchemaDiff [(p, X)] [] = ([], Some (FieldNotFoundInNew p))"
    by (simp add: CalculateFlatSchemaDiff_def)
  show "CalculateFlatSchemaDiff [(p, X)] [(p, X)] = ([], None)"
    by (simp add: CalculateFlatSchemaDiff_def Let_def DeepEqual_cleared)
  show "CalculateFlatSchemaDiff [(p, X)] [(p, Y)] =
     (if set_Properties None X = set_Properties None Y then []
      else [(p, \<lparr>Old = set_Properties None X, New = set_Properties None Y\<rparr>)], None)"
    by (simp add: CalculateFlatSchemaDiff_def Let_def DeepEqual_cleared DeepCopy_def)
qed

theorem CalculateFlatSchemaDiff_result_witness:
  "CalculateFlatSchemaDiff
     [(''^'', JSONSchemaProps [] ''object'' None None None
                (Some [(''a'', JSONSchemaProps [] ''string'' None None None None)])),
      (''^.a'', JSONSchemaProps [] ''string'' None None None None)]
     [(''^'', JSONSchemaProps [] ''object'' None None None
                (Some [(''a'', JSONSchemaProps ''x'' ''string'' None None None None),
                       (''b'', JSONSchemaProps [] ''string'' None None None None)])),
      (''^.a'', JSONSchemaProps ''x'' ''string'' None None None None),
      (''^.b'', JSONSchemaProps [] ''string'' None None None None)]
   = ([(''^.a'', \<lparr>Old = JSONSchemaProps [] ''string'' None None None None,
                   New = JSONSchemaProps ''x'' ''string'' None None None None\<rparr>)], None) \<and>
   snd (CalculateFlatSchemaDiff
     [(''^'', JSONSchemaProps [] [] None None None None),
      (''^.a'', JSONSchemaProps [] [] None None None None)]
     [(''^'', JSONSchemaProps [] [] None None None None)])
   = Some (FieldNotFoundInNew ''^.a'')"
proof -
  let ?old = "[(''^'', JSONSchemaProps [] ''object'' None None None
                (Some [(''a'', JSONSchemaProps [] ''string'' None None None None)])),
      (''^.a'', JSONSchemaProps [] ''string'' None None None None)]"
  let ?new = "[(''^'', JSONSchemaProps [] ''object'' None None None
                (Some [(''a'', JSONSchemaProps ''x'' ''string'' None None None None),
                       (''b'', JSONSchemaProps [] ''string'' None None None None)])),
      (''^.a'', JSONSchemaProps ''x'' ''string'' None None None None),
      (''^.b'', JSONSchemaProps [] ''string'' None None None None)]"
  have a: "snd (CalculateFlatSchemaDiff ?old ?new) = None"
    using CalculateFlatSchemaDiff_result [of ?new ?old "''p''" "JSONSchemaProps [] [] None None None None" "JSONSchemaProps [] [] None None None None"]
    by simp
  have b: "fst (CalculateFlatSchemaDiff ?old ?new) =
       [(''^.a'', \<lparr>Old = JSONSchemaProps [] ''string'' None None None None,
                   New = JSONSchemaProps ''x'' ''string'' None None None None\<rparr>)]"
    by (simp add: CalculateFlatSchemaDiff_def Let_def DeepCopy_def)
  have c: "snd (CalculateFlatSchemaDiff
     [(''^'', JSONSchemaProps [] [] None None None None),
      (''^.a'', JSONSchemaProps [] [] None None None None)]
     [(''^'', JSONSchemaProps [] [] None None None None)])
   = Some (FieldNotFoundInNew ''^.a'')"
    using CalculateFlatSchemaDiff_result [of "[(''^'', JSONSchemaProps [] [] None None None None)]"
      "[(''^'', JSONSchemaProps [] [] None None None None),
      (''^.a'', JSONSchemaProps [] [] None None None None)]" "''p''" "JSONSchemaProps [] [] None None None None" "JSONSchemaProps [] [] None None None None"]
    by simp
  show ?thesis using a b c by (simp add: prod_eq_iff)
qed

text \<open>
  Two nodes that differ in a child only, as in the test "diff in child properties only,
  no diff returned, no error": they are not equal, and the diff is empty.
\<close>

theorem CalculateFlatSchemaDiff_children_only_counterexample:
  "JSONSchemaProps [] [] None None None
     (Some [(''bar'', JSONSchemaProps ''bar'' [] None None None None)])
   \<noteq> JSONSchemaProps [] [] None None None
     (Some [(''bar'', JSONSchemaProps ''baz'' [] None None None None)]) \<and>
   CalculateFlatSchemaDiff
     [(''^.a'', JSONSchemaProps [] [] None None None
         (Some [(''bar'', JSONSchemaProps ''bar'' [] None None None None)]))]
     [(''^.a'', JSONSchemaProps [] [] None None None
         (Some [(''bar'', JSONSchemaProps ''baz'' [] None None None None)]))]
   = ([], None)"
  by (simp add: CalculateFlatSchemaDiff_def Let_def DeepCopy_def)

text \<open>
  With the error the function returns \<^verbatim>\<open>diffMap\<close> as the loop has filled it so far. When
  the \<^verbatim>\<open>range\<close> visits \<^verbatim>\<open>^.a\<close> before the missing \<^verbatim>\<open>^.b\<close>, the map returned with the
  error has the entry of \<^verbatim>\<open>^.a\<close>; the doc comment promises an empty map.
\<close>

lemma CalculateFlatSchemaDiff_partial_diff_with_error:
  "CalculateFlatSchemaDiff
     [(''^.a'', JSONSchemaProps [] [] None None None None),
      (''^.b'', JSONSchemaProps [] [] None None None None)]
     [(''^.a'', JSONSchemaProps ''x'' [] None None None None)]
   = ([(''^.a'', \<lparr>Old = JSONSchemaProps [] [] None None None None,
                   New = JSONSchemaProps ''x'' [] None None None None\<rparr>)],
      Some (FieldNotFoundInNew ''^.b''))"
  by (simp add: CalculateFlatSchemaDiff_def Let_def DeepCopy_def)

section \<open>Properties of flattening\<close>

lemma update_fresh: "k \<notin> fst ` set al \<Longrightarrow> AList.update k v al = al @ [(k, v)]"
  by (induction al) auto

lemma fold_update_fresh:
  "distinct (map fst xs) \<Longrightarrow> fst ` set xs \<inter> fst ` set acc = {} \<Longrightarrow>
   fold (\<lambda>(p, s) m. AList.update p (DeepCopy s) m) xs acc = acc @ xs"
proof (induction xs arbitrary: acc)
  case Nil
  then show ?case by simp
next
  case (Cons x xs)
  obtain p s where x: "x = (p, s)" by (cases x)
  have fresh: "p \<notin> fst ` set acc" using Cons.prems(2) x by auto
  have d: "distinct (map fst xs)" using Cons.prems(1) by simp
  have disj: "fst ` set xs \<inter> fst ` set (acc @ [(p, s)]) = {}"
    using Cons.prems x by auto
  show ?case
    using Cons.IH[OF d disj] x fresh by (simp add: update_fresh DeepCopy_def)
qed

lemma length_SchemaHas:
  "length (SchemaHas path s) = node_count s"
  "length (SchemaHas_properties path props) = node_count_properties props"
  by (induction path s and path props rule: SchemaHas_SchemaHas_properties.induct)
     (auto split: option.splits)

lemma SchemaHas_root: "(path, s) \<in> set (SchemaHas path s)"
  by (cases s) simp

lemma SchemaHas_properties_member:
  "(name, child) \<in> set props \<Longrightarrow>
   set (SchemaHas (path @ ''.'' @ name) child) \<subseteq> set (SchemaHas_properties path props)"
  by (induction props) auto

lemma SchemaHas_child:
  "map_of (elems (Properties s)) name = Some child \<Longrightarrow>
   set (SchemaHas (path @ ''.'' @ name) child) \<subseteq> set (SchemaHas path s)"
proof -
  assume m: "map_of (elems (Properties s)) name = Some child"
  obtain i t d e r ps where s: "s = JSONSchemaProps i t d e r ps" by (cases s)
  from m s obtain props where ps: "ps = Some props" and mem: "(name, child) \<in> set props"
    by (cases ps) (auto simp: elems_def dest: map_of_SomeD)
  show ?thesis
    using SchemaHas_properties_member[OF mem, of path] s ps by auto
qed

lemma node_at_in_SchemaHas:
  "node_at s names = Some c \<Longrightarrow>
   (path @ concat (map (\<lambda>name. ''.'' @ name) names), c) \<in> set (SchemaHas path s)"
proof (induction names arbitrary: s path)
  case Nil
  then show ?case by (simp add: SchemaHas_root)
next
  case (Cons name names)
  from Cons.prems obtain child where
    ch: "map_of (elems (Properties s)) name = Some child" and at: "node_at child names = Some c"
    by (auto split: option.splits)
  have "((path @ ''.'' @ name) @ concat (map (\<lambda>name. ''.'' @ name) names), c)
          \<in> set (SchemaHas (path @ ''.'' @ name) child)"
    by (rule Cons.IH[OF at])
  then show ?case using SchemaHas_child[OF ch, of path] by auto
qed

lemma takeWhile_name:
  "CHR ''.'' \<notin> set name \<Longrightarrow> r = [] \<or> hd r = CHR ''.'' \<Longrightarrow>
   takeWhile (\<lambda>c. c \<noteq> CHR ''.'') (name @ r) = name"
  by (cases r) (auto simp: takeWhile_tail takeWhile_eq_all_conv)

lemma name_suffix_inj:
  assumes "CHR ''.'' \<notin> set name" "CHR ''.'' \<notin> set name'"
    and "r = [] \<or> hd r = CHR ''.''" "r' = [] \<or> hd r' = CHR ''.''"
    and "name @ r = name' @ r'"
  shows "name = name'"
proof -
  have "takeWhile (\<lambda>c. c \<noteq> CHR ''.'') (name @ r) = name"
    using assms(1,3) by (rule takeWhile_name)
  moreover have "takeWhile (\<lambda>c. c \<noteq> CHR ''.'') (name' @ r') = name'"
    using assms(2,4) by (rule takeWhile_name)
  ultimately show ?thesis using assms(5) by simp
qed

lemma SchemaHas_paths_distinct:
  "(wf_schema s \<longrightarrow> dot_free s \<longrightarrow>
      distinct (map fst (SchemaHas path s)) \<and>
      (\<forall>q \<in> fst ` set (SchemaHas path s). \<exists>r. q = path @ r \<and> (r = [] \<or> hd r = CHR ''.'')))"
  "(props_ok props \<longrightarrow>
      distinct (map fst (SchemaHas_properties path props)) \<and>
      (\<forall>q \<in> fst ` set (SchemaHas_properties path props).
         \<exists>name r. name \<in> fst ` set props \<and> q = path @ ''.'' @ name @ r \<and>
                  (r = [] \<or> hd r = CHR ''.'')))"
proof (induction path s and path props rule: SchemaHas_SchemaHas_properties.induct)
  case (1 path i t d e r ps)
  show ?case
  proof (cases ps)
    case None
    then show ?thesis by simp
  next
    case (Some props)
    show ?thesis
    proof (intro impI)
      assume wf: "wf_schema (JSONSchemaProps i t d e r ps)"
        and df: "dot_free (JSONSchemaProps i t d e r ps)"
      have ok: "props_ok props" using wf df Some by (simp add: props_ok_def)
      from 1[OF Some] ok have
        dist: "distinct (map fst (SchemaHas_properties path props))" and
        form: "\<forall>q \<in> fst ` set (SchemaHas_properties path props).
                 \<exists>name r. name \<in> fst ` set props \<and> q = path @ ''.'' @ name @ r \<and>
                          (r = [] \<or> hd r = CHR ''.'')"
        by simp_all
      have notin: "path \<notin> fst ` set (SchemaHas_properties path props)"
      proof
        assume "path \<in> fst ` set (SchemaHas_properties path props)"
        with form obtain name r where "path = path @ ''.'' @ name @ r" by blast
        then show False by simp
      qed
      have form': "\<forall>q \<in> fst ` set (SchemaHas_properties path props).
                     \<exists>r. q = path @ r \<and> (r = [] \<or> hd r = CHR ''.'')"
      proof
        fix q assume "q \<in> fst ` set (SchemaHas_properties path props)"
        with form obtain name r where "q = path @ ''.'' @ name @ r" by blast
        then have "q = path @ (''.'' @ name @ r) \<and> hd (''.'' @ name @ r) = CHR ''.''" by simp
        then show "\<exists>r. q = path @ r \<and> (r = [] \<or> hd r = CHR ''.'')" by blast
      qed
      show "distinct (map fst (SchemaHas path (JSONSchemaProps i t d e r ps))) \<and>
            (\<forall>q \<in> fst ` set (SchemaHas path (JSONSchemaProps i t d e r ps)).
               \<exists>r. q = path @ r \<and> (r = [] \<or> hd r = CHR ''.''))"
        using Some dist notin form' by simp
    qed
  qed
next
  case (2 path)
  then show ?case by simp
next
  case (3 path name child props)
  show ?case
  proof (intro impI)
    assume ok: "props_ok ((name, child) # props)"
    then have ok': "props_ok props" and wfc: "wf_schema child" and dfc: "dot_free child"
      and nd: "CHR ''.'' \<notin> set name" and fresh: "name \<notin> fst ` set props"
      and nds: "\<forall>n \<in> fst ` set props. CHR ''.'' \<notin> set n"
      by (auto simp: props_ok_def list_all_iff)
    from 3(1) wfc dfc have
      d1: "distinct (map fst (SchemaHas (path @ ''.'' @ name) child))" and
      f1: "\<forall>q \<in> fst ` set (SchemaHas (path @ ''.'' @ name) child).
             \<exists>r. q = (path @ ''.'' @ name) @ r \<and> (r = [] \<or> hd r = CHR ''.'')"
      by simp_all
    from 3(2) ok' have
      d2: "distinct (map fst (SchemaHas_properties path props))" and
      f2: "\<forall>q \<in> fst ` set (SchemaHas_properties path props).
             \<exists>name r. name \<in> fst ` set props \<and> q = path @ ''.'' @ name @ r \<and>
                      (r = [] \<or> hd r = CHR ''.'')"
      by simp_all
    have disj: "fst ` set (SchemaHas (path @ ''.'' @ name) child) \<inter>
                fst ` set (SchemaHas_properties path props) = {}"
    proof (rule ccontr)
      assume "\<not> ?thesis"
      then obtain q where q1: "q \<in> fst ` set (SchemaHas (path @ ''.'' @ name) child)"
        and q2: "q \<in> fst ` set (SchemaHas_properties path props)" by blast
      from f1 q1 obtain r where r: "q = (path @ ''.'' @ name) @ r" "r = [] \<or> hd r = CHR ''.''"
        by blast
      from f2 q2 obtain name' r' where r': "name' \<in> fst ` set props"
        "q = path @ ''.'' @ name' @ r'" "r' = [] \<or> hd r' = CHR ''.''" by blast
      from r(1)[symmetric] r'(2)
      have "(path @ ''.'' @ name) @ r = path @ ''.'' @ name' @ r'" by (rule trans)
      then have eq: "name @ r = name' @ r'" by simp
      have nd': "CHR ''.'' \<notin> set name'" using nds r'(1) by blast
      have "name = name'" by (rule name_suffix_inj[OF nd nd' r(2) r'(3) eq])
      with fresh r'(1) show False by simp
    qed
    have form: "\<forall>q \<in> fst ` set (SchemaHas_properties path ((name, child) # props)).
         \<exists>name' r. name' \<in> fst ` set ((name, child) # props) \<and> q = path @ ''.'' @ name' @ r \<and>
                  (r = [] \<or> hd r = CHR ''.'')"
    proof
      fix q assume "q \<in> fst ` set (SchemaHas_properties path ((name, child) # props))"
      then consider "q \<in> fst ` set (SchemaHas (path @ ''.'' @ name) child)"
        | "q \<in> fst ` set (SchemaHas_properties path props)" by auto
      then show "\<exists>name' r. name' \<in> fst ` set ((name, child) # props) \<and>
                   q = path @ ''.'' @ name' @ r \<and> (r = [] \<or> hd r = CHR ''.'')"
      proof cases
        case 1
        with f1 obtain r where "q = (path @ ''.'' @ name) @ r" "r = [] \<or> hd r = CHR ''.''"
          by blast
        then have "name \<in> fst ` set ((name, child) # props) \<and> q = path @ ''.'' @ name @ r \<and>
                   (r = [] \<or> hd r = CHR ''.'')" by simp
        then show ?thesis by blast
      next
        case 2
        with f2 obtain name' r where "name' \<in> fst ` set props" "q = path @ ''.'' @ name' @ r"
          "r = [] \<or> hd r = CHR ''.''" by blast
        then have "name' \<in> fst ` set ((name, child) # props) \<and> q = path @ ''.'' @ name' @ r \<and>
                   (r = [] \<or> hd r = CHR ''.'')" by simp
        then show ?thesis by blast
      qed
    qed
    have dist: "distinct (map fst (SchemaHas_properties path ((name, child) # props)))"
      using d1 d2 disj by simp
    show "distinct (map fst (SchemaHas_properties path ((name, child) # props))) \<and>
          (\<forall>q \<in> fst ` set (SchemaHas_properties path ((name, child) # props)).
             \<exists>name' r. name' \<in> fst ` set ((name, child) # props) \<and>
                q = path @ ''.'' @ name' @ r \<and> (r = [] \<or> hd r = CHR ''.''))"
      using dist form by (rule conjI)
  qed
qed

lemma dot_free_paths_distinct:
  "wf_schema root \<Longrightarrow> dot_free root \<Longrightarrow> distinct (map fst (SchemaHas ''^'' root))"
  using SchemaHas_paths_distinct(1)[of root "''^''"] by simp

lemma fold_update_map_of:
  "map_of (fold (\<lambda>(p, s) m. AList.update p (DeepCopy s) m) xs acc) =
     map_of acc ++ map_of (rev xs)"
proof (induction xs arbitrary: acc)
  case Nil
  then show ?case by simp
next
  case (Cons x xs)
  obtain p s where x: "x = (p, s)" by (cases x)
  have "map_of (fold (\<lambda>(p, s) m. AList.update p (DeepCopy s) m) (x # xs) acc) =
          map_of (AList.update p s acc) ++ map_of (rev xs)"
    using Cons.IH[of "AList.update p s acc"] x by (simp add: DeepCopy_def)
  also have "\<dots> = (map_of acc ++ [p \<mapsto> s]) ++ map_of (rev xs)"
    by (simp add: update_conv')
  also have "\<dots> = map_of acc ++ map_of (rev (x # xs))"
    using x by (simp add: map_add_assoc)
  finally show ?case .
qed

lemma fold_update_keys:
  "fst ` set (fold (\<lambda>(p, s) m. AList.update p (DeepCopy s) m) xs acc) =
     fst ` set acc \<union> fst ` set xs"
proof (induction xs arbitrary: acc)
  case Nil
  then show ?case by simp
next
  case (Cons x xs)
  obtain p s where x: "x = (p, s)" by (cases x)
  have "fst ` set (AList.update p (DeepCopy s) acc) = insert p (fst ` set acc)"
    by (simp add: dom_update)
  then show ?case
    using Cons.IH[of "AList.update p (DeepCopy s) acc"] x by simp
qed

lemma fold_update_distinct:
  "distinct (map fst acc) \<Longrightarrow>
   distinct (map fst (fold (\<lambda>(p, s) m. AList.update p (DeepCopy s) m) xs acc))"
proof (induction xs arbitrary: acc)
  case Nil
  then show ?case by simp
next
  case (Cons x xs)
  obtain p s where x: "x = (p, s)" by (cases x)
  have "distinct (map fst (AList.update p (DeepCopy s) acc))"
    using Cons.prems by (simp add: distinct_update)
  from Cons.IH[OF this] show ?case using x by simp
qed

lemma FlattenSchema_keys_distinct: "distinct (map fst (FlattenSchema schema))"
  by (simp add: FlattenSchema_def fold_update_distinct)

lemma FlattenSchema_keys:
  "set (map fst (FlattenSchema (Some root))) = set (map fst (SchemaHas ''^'' root))"
  using fold_update_keys[of "SchemaHas ''^'' root" "[]"] by (simp add: FlattenSchema_def)

lemma FlattenSchema_last_store:
  "map_of (FlattenSchema (Some root)) p = map_of (rev (SchemaHas ''^'' root)) p"
  by (simp add: FlattenSchema_def fold_update_map_of)

lemma FlattenSchema_length:
  "length (FlattenSchema (Some root)) = card (set (map fst (SchemaHas ''^'' root)))"
proof -
  have "length (FlattenSchema (Some root)) = length (map fst (FlattenSchema (Some root)))"
    by simp
  also have "\<dots> = card (set (map fst (FlattenSchema (Some root))))"
    using FlattenSchema_keys_distinct[of "Some root"] by (simp only: distinct_card)
  also have "\<dots> = card (set (map fst (SchemaHas ''^'' root)))"
    by (simp only: FlattenSchema_keys)
  finally show ?thesis .
qed

lemma FlattenSchema_collision_fewer:
  "\<not> distinct (map fst (SchemaHas ''^'' root)) \<Longrightarrow>
   length (FlattenSchema (Some root)) < node_count root"
proof -
  assume nd: "\<not> distinct (map fst (SchemaHas ''^'' root))"
  have le: "card (set (map fst (SchemaHas ''^'' root))) \<le> length (map fst (SchemaHas ''^'' root))"
    by (rule card_length)
  have ne: "card (set (map fst (SchemaHas ''^'' root))) \<noteq> length (map fst (SchemaHas ''^'' root))"
    using nd card_distinct by blast
  have "length (map fst (SchemaHas ''^'' root)) = node_count root"
    by (simp add: length_SchemaHas)
  then show ?thesis using le ne FlattenSchema_length[of root] by simp
qed

text \<open>
  C9, as the code has it. A nil root gives the empty map. For every root the paths of the
  flat schema are pairwise distinct and are exactly the paths of the visited nodes, and
  the entry of a path is a copy of the node visited last under it: when two nodes have
  the same path the map keeps one entry for both, and it has fewer entries than the tree
  has nodes. For a root whose nodes have pairwise distinct paths, \<^verbatim>\<open>FlattenSchema\<close>
  returns exactly the visited nodes, each a copy under its path: as many entries as the
  tree has nodes, the root under \<^verbatim>\<open>^\<close>, and the node reached by the names \<open>names\<close>
  under \<open>path_of names\<close>, at every depth. With paths formed as above (\<^verbatim>\<open>^\<close>, then
  \<^verbatim>\<open>.name\<close> for each name), they are pairwise distinct in every well-formed tree none
  of whose property names contains a dot.
\<close>

theorem FlattenSchema_one_entry_per_node:
  "FlattenSchema None = [] \<and>
   distinct (map fst (FlattenSchema (Some root))) \<and>
   set (map fst (FlattenSchema (Some root))) = set (map fst (SchemaHas ''^'' root)) \<and>
   (\<forall>path. map_of (FlattenSchema (Some root)) path =
             map_of (rev (map (\<lambda>(p, s). (p, DeepCopy s)) (SchemaHas ''^'' root))) path) \<and>
   (\<not> distinct (map fst (SchemaHas ''^'' root)) \<longrightarrow>
      length (FlattenSchema (Some root)) < node_count root) \<and>
   (wf_schema root \<and> dot_free root \<longrightarrow> distinct (map fst (SchemaHas ''^'' root))) \<and>
   (distinct (map fst (SchemaHas ''^'' root)) \<longrightarrow>
      FlattenSchema (Some root) = SchemaHas ''^'' root \<and>
      length (FlattenSchema (Some root)) = node_count root \<and>
      map_of (FlattenSchema (Some root)) ''^'' = Some (DeepCopy root) \<and>
      (\<forall>names s. node_at root names = Some s \<longrightarrow>
         map_of (FlattenSchema (Some root)) (path_of names) = Some (DeepCopy s)))"
proof (intro conjI impI allI)
  show "FlattenSchema None = []" by (simp add: FlattenSchema_def)
next
  show "distinct (map fst (FlattenSchema (Some root)))"
    by (rule FlattenSchema_keys_distinct)
next
  show "set (map fst (FlattenSchema (Some root))) = set (map fst (SchemaHas ''^'' root))"
    by (rule FlattenSchema_keys)
next
  fix path
  have "map (\<lambda>(p, s). (p, DeepCopy s)) (SchemaHas ''^'' root) = SchemaHas ''^'' root"
    by (simp add: DeepCopy_def)
  then show "map_of (FlattenSchema (Some root)) path =
             map_of (rev (map (\<lambda>(p, s). (p, DeepCopy s)) (SchemaHas ''^'' root))) path"
    by (simp only: FlattenSchema_last_store)
next
  assume "\<not> distinct (map fst (SchemaHas ''^'' root))"
  then show "length (FlattenSchema (Some root)) < node_count root"
    by (rule FlattenSchema_collision_fewer)
next
  assume "wf_schema root \<and> dot_free root"
  then show "distinct (map fst (SchemaHas ''^'' root))"
    by (simp add: dot_free_paths_distinct)
next
  assume d: "distinct (map fst (SchemaHas ''^'' root))"
  show eq: "FlattenSchema (Some root) = SchemaHas ''^'' root"
    using fold_update_fresh[OF d, of "[]"] by (simp add: FlattenSchema_def)
  show "length (FlattenSchema (Some root)) = node_count root"
    using eq by (simp add: length_SchemaHas)
  have at: "\<And>names s. node_at root names = Some s \<Longrightarrow>
              map_of (FlattenSchema (Some root)) (path_of names) = Some (DeepCopy s)"
  proof -
    fix names s assume "node_at root names = Some s"
    then have "(path_of names, s) \<in> set (SchemaHas ''^'' root)"
      unfolding path_of_def by (rule node_at_in_SchemaHas)
    then show "map_of (FlattenSchema (Some root)) (path_of names) = Some (DeepCopy s)"
      using d eq by (simp add: DeepCopy_def)
  qed
  show "map_of (FlattenSchema (Some root)) ''^'' = Some (DeepCopy root)"
    using at[of "[]" root] by (simp add: path_of_def)
  fix names s assume "node_at root names = Some s"
  then show "map_of (FlattenSchema (Some root)) (path_of names) = Some (DeepCopy s)"
    by (rule at)
qed

theorem FlattenSchema_one_entry_per_node_witness:
  "distinct (map fst (SchemaHas ''^''
     (JSONSchemaProps [] [] None None None
        (Some [(''foo'', JSONSchemaProps [] [] None None None
                           (Some [(''bar'', JSONSchemaProps [] [] None None None None)])),
               (''baz'', JSONSchemaProps [] [] None None None None)])))) \<and>
   FlattenSchema (Some
     (JSONSchemaProps [] [] None None None
        (Some [(''foo'', JSONSchemaProps [] [] None None None
                           (Some [(''bar'', JSONSchemaProps [] [] None None None None)])),
               (''baz'', JSONSchemaProps [] [] None None None None)])))
   = [(''^'', JSONSchemaProps [] [] None None None
        (Some [(''foo'', JSONSchemaProps [] [] None None None
                           (Some [(''bar'', JSONSchemaProps [] [] None None None None)])),
               (''baz'', JSONSchemaProps [] [] None None None None)])),
      (''^.foo'', JSONSchemaProps [] [] None None None
                    (Some [(''bar'', JSONSchemaProps [] [] None None None None)])),
      (''^.foo.bar'', JSONSchemaProps [] [] None None None None),
      (''^.baz'', JSONSchemaProps [] [] None None None None)] \<and>
   \<not> distinct (map fst (SchemaHas ''^''
     (JSONSchemaProps [] [] None None None
        (Some [(''x'', JSONSchemaProps [] [] None None None
                         (Some [(''y'', JSONSchemaProps ''first'' [] None None None None)])),
               (''x.y'', JSONSchemaProps ''second'' [] None None None None)])))) \<and>
   length (FlattenSchema (Some
     (JSONSchemaProps [] [] None None None
        (Some [(''x'', JSONSchemaProps [] [] None None None
                         (Some [(''y'', JSONSchemaProps ''first'' [] None None None None)])),
               (''x.y'', JSONSchemaProps ''second'' [] None None None None)]))))
   < node_count
     (JSONSchemaProps [] [] None None None
        (Some [(''x'', JSONSchemaProps [] [] None None None
                         (Some [(''y'', JSONSchemaProps ''first'' [] None None None None)])),
               (''x.y'', JSONSchemaProps ''second'' [] None None None None)])) \<and>
   map_of (FlattenSchema (Some
     (JSONSchemaProps [] [] None None None
        (Some [(''x'', JSONSchemaProps [] [] None None None
                         (Some [(''y'', JSONSchemaProps ''first'' [] None None None None)])),
               (''x.y'', JSONSchemaProps ''second'' [] None None None None)])))) ''^.x.y''
   = Some (JSONSchemaProps ''second'' [] None None None None)"
proof -
  let ?root = "JSONSchemaProps [] [] None None None
        (Some [(''foo'', JSONSchemaProps [] [] None None None
                           (Some [(''bar'', JSONSchemaProps [] [] None None None None)])),
               (''baz'', JSONSchemaProps [] [] None None None None)])"
  let ?dotted = "JSONSchemaProps [] [] None None None
        (Some [(''x'', JSONSchemaProps [] [] None None None
                         (Some [(''y'', JSONSchemaProps ''first'' [] None None None None)])),
               (''x.y'', JSONSchemaProps ''second'' [] None None None None)])"
  note inst = FlattenSchema_one_entry_per_node [of ?root]
  note inst' = FlattenSchema_one_entry_per_node [of ?dotted]
  have d: "distinct (map fst (SchemaHas ''^'' ?root))" by simp
  have distinct_case:
    "distinct (map fst (SchemaHas ''^'' ?root)) \<longrightarrow>
       FlattenSchema (Some ?root) = SchemaHas ''^'' ?root \<and>
       length (FlattenSchema (Some ?root)) = node_count ?root \<and>
       map_of (FlattenSchema (Some ?root)) ''^'' = Some (DeepCopy ?root) \<and>
       (\<forall>names s. node_at ?root names = Some s \<longrightarrow>
          map_of (FlattenSchema (Some ?root)) (path_of names) = Some (DeepCopy s))"
    using inst by (elim conjE)
  have a: "FlattenSchema (Some ?root) = SchemaHas ''^'' ?root"
    using mp[OF distinct_case d] by (elim conjE)
  have a': "FlattenSchema (Some ?root) =
      [(''^'', ?root),
       (''^.foo'', JSONSchemaProps [] [] None None None
                    (Some [(''bar'', JSONSchemaProps [] [] None None None None)])),
       (''^.foo.bar'', JSONSchemaProps [] [] None None None None),
       (''^.baz'', JSONSchemaProps [] [] None None None None)]"
    unfolding a by simp
  have nd: "\<not> distinct (map fst (SchemaHas ''^'' ?dotted))" by simp
  have collide:
    "\<not> distinct (map fst (SchemaHas ''^'' ?dotted)) \<longrightarrow>
       length (FlattenSchema (Some ?dotted)) < node_count ?dotted"
    using inst' by (elim conjE)
  have b: "length (FlattenSchema (Some ?dotted)) < node_count ?dotted"
    by (rule mp[OF collide nd])
  have last_store:
    "\<forall>path. map_of (FlattenSchema (Some ?dotted)) path =
       map_of (rev (map (\<lambda>(p, s). (p, DeepCopy s)) (SchemaHas ''^'' ?dotted))) path"
    using inst' by (elim conjE)
  have c: "map_of (FlattenSchema (Some ?dotted)) ''^.x.y''
             = Some (JSONSchemaProps ''second'' [] None None None None)"
    unfolding spec[OF last_store, of "''^.x.y''"] by (simp add: DeepCopy_def)
  from d a' nd b c show ?thesis by (intro conjI)
qed

text \<open>
  A well-formed tree of four nodes in which the child \<^verbatim>\<open>b\<close> of \<^verbatim>\<open>a\<close> and the child
  \<^verbatim>\<open>a.b\<close> of the root have the same path \<^verbatim>\<open>^.a.b\<close>: the flat schema has three entries,
  and the second store under \<^verbatim>\<open>^.a.b\<close> has replaced the first.
\<close>

theorem FlattenSchema_dotted_name_counterexample:
  "wf_schema
     (JSONSchemaProps [] [] None None None
        (Some [(''a'', JSONSchemaProps [] [] None None None
                         (Some [(''b'', JSONSchemaProps ''one'' [] None None None None)])),
               (''a.b'', JSONSchemaProps ''two'' [] None None None None)])) \<and>
   node_count
     (JSONSchemaProps [] [] None None None
        (Some [(''a'', JSONSchemaProps [] [] None None None
                         (Some [(''b'', JSONSchemaProps ''one'' [] None None None None)])),
               (''a.b'', JSONSchemaProps ''two'' [] None None None None)])) = 4 \<and>
   FlattenSchema (Some
     (JSONSchemaProps [] [] None None None
        (Some [(''a'', JSONSchemaProps [] [] None None None
                         (Some [(''b'', JSONSchemaProps ''one'' [] None None None None)])),
               (''a.b'', JSONSchemaProps ''two'' [] None None None None)])))
   = [(''^'', JSONSchemaProps [] [] None None None
        (Some [(''a'', JSONSchemaProps [] [] None None None
                         (Some [(''b'', JSONSchemaProps ''one'' [] None None None None)])),
               (''a.b'', JSONSchemaProps ''two'' [] None None None None)])),
      (''^.a'', JSONSchemaProps [] [] None None None
                  (Some [(''b'', JSONSchemaProps ''one'' [] None None None None)])),
      (''^.a.b'', JSONSchemaProps ''two'' [] None None None None)]"
  by (simp add: FlattenSchema_def DeepCopy_def)

section \<open>Properties of the permission preflight\<close>

text \<open>
  \<^verbatim>\<open>SetConfig\<close> leaves the receiver as it was, and, when the bag decodes, returns an
  error exactly when the name is none of the two strategies and not empty.
\<close>

lemma SetConfig_keeps_receiver: "snd (SetConfig Marshal Unmarshal p cfg) = p"
  by (simp add: SetConfig_def Let_def split: sum.splits)

lemma SetConfig_error_iff:
  "Marshal cfg = Inr cfgBytes \<Longrightarrow>
   Unmarshal cfgBytes \<lparr>PermissionValidatorResource = []\<rparr> = Inr pCfg \<Longrightarrow>
   fst (SetConfig Marshal Unmarshal p cfg) =
     (if PermissionValidatorResource pCfg \<in>
           {''SelfSubjectAccessReview'', ''SelfSubjectRulesReview'', []}
      then None
      else Some (UnknownPermissionValidatorType (PermissionValidatorResource pCfg)))"
  by (simp add: SetConfig_def Let_def PermissionValidatorTypeSelfSubjectAccessReview_def
        PermissionValidatorTypeSelfSubjectRulesReview_def)

text \<open>
  C1. A fresh \<^verbatim>\<open>Preflight\<close> is configured with the strategy
  \<^verbatim>\<open>SelfSubjectRulesReview\<close>. \<^verbatim>\<open>SetConfig\<close> accepts the bag and returns no error; the
  receiver is unchanged, and the \<^verbatim>\<open>Run\<close> that follows builds the
  \<^verbatim>\<open>SelfSubjectAccessReview\<close> validator.
\<close>

theorem SetConfig_drops_accepted_strategy:
  "SetConfig bag_Marshal bag_Unmarshal (NewPreflight True)
     [(''permissionValidatorResource'', ''SelfSubjectRulesReview'')]
   = (None, NewPreflight True) \<and>
   permissionValidator_of
     (snd (SetConfig bag_Marshal bag_Unmarshal (NewPreflight True)
        [(''permissionValidatorResource'', ''SelfSubjectRulesReview'')]))
   = Some NewSelfSubjectAccessReviewValidator"
  by (simp add: SetConfig_def bag_Marshal_def bag_Unmarshal_def NewPreflight_def
        permissionValidator_of_def PermissionValidatorTypeSelfSubjectAccessReview_def
        PermissionValidatorTypeSelfSubjectRulesReview_def)

lemma failures_Nil [simp]: "failures [] = []"
  by (simp add: failures_def)

lemma failures_Cons [simp]:
  "failures (err # errs) = (case err of None \<Rightarrow> [] | Some e \<Rightarrow> [e]) @ failures errs"
  by (simp add: failures_def)

lemma append_error_eq:
  "append_error errorSet err = errorSet @ (case err of None \<Rightarrow> [] | Some e \<Rightarrow> [e])"
  by (simp add: append_error_def split: option.splits)

lemma Run_changes_eq:
  "Run_changes validator changeGraph errorSet w =
     (errorSet @ failures (fst (check_in_order validator (required_checks changeGraph) w)),
      snd (check_in_order validator (required_checks changeGraph) w))"
proof (induction changeGraph arbitrary: errorSet w)
  case Nil
  then show ?case by (simp add: required_checks_def failures_def)
next
  case (Cons change rest)
  have rc: "required_checks (change # rest) =
              map (\<lambda>verb. (Change_Resource change, verb)) (required_verbs (Change_Op change)) @
              required_checks rest"
    by (simp add: required_checks_def)
  show ?case
  proof (cases "Change_Op change")
    case ActualChangeOpDelete
    then show ?thesis
      unfolding rc
      by (simp add: Cons.IH append_error_eq case_prod_beta)
  next
    case ActualChangeOpUpsert
    then show ?thesis
      unfolding rc
      by (simp add: Cons.IH append_error_eq case_prod_beta)
  next
    case ActualChangeOpNoop
    then show ?thesis
      unfolding rc by (simp add: Cons.IH)
  qed
qed

lemma check_in_order_failed:
  "(resource, verb) \<in> set checks \<Longrightarrow> (\<And>w. fst (validator resource verb w) = Some e) \<Longrightarrow>
   e \<in> set (failures (fst (check_in_order validator checks w)))"
proof (induction checks arbitrary: w)
  case Nil
  then show ?case by simp
next
  case (Cons c checks)
  obtain r v where c: "c = (r, v)" by (cases c)
  obtain err w1 where v: "validator r v w = (err, w1)" by (cases "validator r v w")
  obtain errs w2 where rest: "check_in_order validator checks w1 = (errs, w2)"
    by (cases "check_in_order validator checks w1")
  have step: "fst (check_in_order validator (c # checks) w) = err # errs"
    using c v rest by simp
  show ?case
  proof (cases "(resource, verb) = c")
    case True
    then have "err = Some e" using Cons.prems(2)[of w] c v by simp
    then show ?thesis unfolding step by simp
  next
    case False
    then have "(resource, verb) \<in> set checks" using Cons.prems(1) by simp
    from Cons.IH[OF this Cons.prems(2), of w1] rest
    have "e \<in> set (failures errs)" by simp
    then show ?thesis unfolding step by simp
  qed
qed

text \<open>
  C6. When the client and the mapper are available, \<^verbatim>\<open>Run\<close> calls the validator on the
  required checks of the change graph, in order: \<^verbatim>\<open>delete\<close> for a delete, \<^verbatim>\<open>create\<close>
  then \<^verbatim>\<open>update\<close> for an upsert, each call on the state the one before left. It returns
  no error when no call failed, and otherwise the join of all the failures, in order. So
  when the \<^verbatim>\<open>create\<close> check of an upserted resource fails with \<open>e\<close>, the error returned
  is a join that holds \<open>e\<close>, whatever the \<^verbatim>\<open>update\<close> check returns.
\<close>

theorem Run_checks_every_change:
  "Run (Inr client) (Inr mapper) NewCompositeValidator p changeGraph w =
     (let validator = NewCompositeValidator (permissionValidator_of p) client mapper;
          (results, w') = check_in_order validator (required_checks changeGraph) w
      in (if failures results = [] then None else Some (Joined (failures results)), w')) \<and>
   (change \<in> set changeGraph \<and> Change_Op change = ActualChangeOpUpsert \<and>
    (\<forall>w1. fst (NewCompositeValidator (permissionValidator_of p) client mapper
                 (Change_Resource change) ''create'' w1) = Some e) \<longrightarrow>
    (\<exists>errorSet. fst (Run (Inr client) (Inr mapper) NewCompositeValidator p changeGraph w) =
                   Some (Joined errorSet) \<and> e \<in> set errorSet))"
proof (intro conjI impI)
  let ?validator = "NewCompositeValidator (permissionValidator_of p) client mapper"
  show run: "Run (Inr client) (Inr mapper) NewCompositeValidator p changeGraph w =
     (let validator = ?validator;
          (results, w') = check_in_order validator (required_checks changeGraph) w
      in (if failures results = [] then None else Some (Joined (failures results)), w'))"
    by (simp add: Run_def Run_changes_eq Let_def case_prod_beta)
  assume h: "change \<in> set changeGraph \<and> Change_Op change = ActualChangeOpUpsert \<and>
    (\<forall>w1. fst (?validator (Change_Resource change) ''create'' w1) = Some e)"
  then have "(Change_Resource change, ''create'') \<in> set (required_checks changeGraph)"
    by (auto simp: required_checks_def intro!: bexI[of _ change])
  then have mem: "e \<in> set (failures (fst (check_in_order ?validator (required_checks changeGraph) w)))"
    using h by (intro check_in_order_failed) auto
  then have ne: "failures (fst (check_in_order ?validator (required_checks changeGraph) w)) \<noteq> []"
    by auto
  have "fst (Run (Inr client) (Inr mapper) NewCompositeValidator p changeGraph w) =
          Some (Joined (failures (fst (check_in_order ?validator (required_checks changeGraph) w))))"
    unfolding run using ne by (simp add: Let_def case_prod_beta)
  then show "\<exists>errorSet. fst (Run (Inr client) (Inr mapper) NewCompositeValidator p changeGraph w) =
                   Some (Joined errorSet) \<and> e \<in> set errorSet"
    using mem by blast
qed


theorem Run_checks_every_change_witness:
  "Run (Inr ()) (Inr ()) direct_validator (NewPreflight True)
     [\<lparr>Change_Resource = \<lparr>Namespace = ''ns'', Verb = [], Group = [], Version = ''v1'',
                           Resource = ''configmaps'', Name = ''cm''\<rparr>,
       Change_Op = ActualChangeOpUpsert\<rparr>,
      \<lparr>Change_Resource = \<lparr>Namespace = ''ns'', Verb = [], Group = [], Version = ''v1'',
                           Resource = ''secrets'', Name = ''s''\<rparr>,
       Change_Op = ActualChangeOpDelete\<rparr>] ()
   = (Some (Joined [NotPermitted ''create'' [] ''v1'' ''configmaps'',
                    NotPermitted ''delete'' [] ''v1'' ''secrets'']), ())"
proof -
  let ?cm = "\<lparr>Namespace = ''ns'', Verb = [], Group = [], Version = ''v1'',
              Resource = ''configmaps'', Name = ''cm''\<rparr>"
  let ?s = "\<lparr>Namespace = ''ns'', Verb = [], Group = [], Version = ''v1'',
              Resource = ''secrets'', Name = ''s''\<rparr>"
  let ?up = "\<lparr>Change_Resource = ?cm, Change_Op = ActualChangeOpUpsert\<rparr>"
  let ?del = "\<lparr>Change_Resource = ?s, Change_Op = ActualChangeOpDelete\<rparr>"
  have denied: "\<forall>w1. fst (direct_validator (permissionValidator_of (NewPreflight True)) () ()
                  (Change_Resource ?up) ''create'' w1)
                = Some (NotPermitted ''create'' [] ''v1'' ''configmaps'')"
    by (simp add: direct_validator_def SelfSubjectAccessReviewValidator_ValidatePermissions_def
          update_only_ssarCreate_def not_permitted_def)
  have allowed: "fst (direct_validator (permissionValidator_of (NewPreflight True)) () ()
                  (Change_Resource ?up) ''update'' ()) = None"
    by (simp add: direct_validator_def SelfSubjectAccessReviewValidator_ValidatePermissions_def
          update_only_ssarCreate_def not_permitted_def)
  note inst = Run_checks_every_change [of "()" "()" direct_validator "NewPreflight True"
      "[?up, ?del]" "()" ?up "NotPermitted ''create'' [] ''v1'' ''configmaps''"]
  have hyp: "?up \<in> set [?up, ?del] \<and> Change_Op ?up = ActualChangeOpUpsert \<and>
      (\<forall>w1. fst (direct_validator (permissionValidator_of (NewPreflight True)) () ()
                  (Change_Resource ?up) ''create'' w1)
                = Some (NotPermitted ''create'' [] ''v1'' ''configmaps''))"
    using denied by simp
  have
    "\<exists>errorSet. fst (Run (Inr ()) (Inr ()) direct_validator (NewPreflight True) [?up, ?del] ()) =
        Some (Joined errorSet) \<and> NotPermitted ''create'' [] ''v1'' ''configmaps'' \<in> set errorSet"
    by (rule mp[OF conjunct2[OF inst] hyp])
  moreover have "Run (Inr ()) (Inr ()) direct_validator (NewPreflight True) [?up, ?del] () =
      (Some (Joined [NotPermitted ''create'' [] ''v1'' ''configmaps'',
                     NotPermitted ''delete'' [] ''v1'' ''secrets'']), ())"
    unfolding conjunct1[OF inst]
    by (simp add: required_checks_def direct_validator_def
          SelfSubjectAccessReviewValidator_ValidatePermissions_def
          update_only_ssarCreate_def not_permitted_def)
  ultimately show ?thesis by simp
qed

text \<open>
  C8, as the code has it. \<^verbatim>\<open>RulesForBinding\<close> fails when the kind of the resource is
  neither binding kind and when the conversion fails. For a \<^verbatim>\<open>RoleBinding\<close> it returns
  the rules of the \<^verbatim>\<open>ClusterRole\<close> or of the \<^verbatim>\<open>Role\<close> (in the namespace of the binding)
  that the reference names, fails when the fetch fails, and fails when the kind of the
  reference is neither of the two. For a \<^verbatim>\<open>ClusterRoleBinding\<close> it returns the rules of
  the \<^verbatim>\<open>ClusterRole\<close> with the name of the reference, or fails when the fetch fails; it
  does not read the kind of the reference.
\<close>

theorem RulesForBinding_cases:
  "(Kind res \<noteq> ''RoleBinding'' \<and> Kind res \<noteq> ''ClusterRoleBinding'' \<longrightarrow>
      RulesForBinding ClusterRoles_Get Roles_Get res = Inl (UnknownBindingKind (Kind res))) \<and>
   (Kind res = ''RoleBinding'' \<and> AsRoleBinding res = Inl err \<longrightarrow>
      RulesForBinding ClusterRoles_Get Roles_Get res = Inl (ConvertingToRoleBinding err)) \<and>
   (Kind res = ''ClusterRoleBinding'' \<and> AsClusterRoleBinding res = Inl err \<longrightarrow>
      RulesForBinding ClusterRoles_Get Roles_Get res = Inl (ConvertingToClusterRoleBinding err)) \<and>
   (Kind res = ''RoleBinding'' \<and> AsRoleBinding res = Inr rb \<longrightarrow>
      RulesForBinding ClusterRoles_Get Roles_Get res =
        (if ref_Kind (rb_RoleRef rb) = ''ClusterRole''
         then (case ClusterRoles_Get (ref_Name (rb_RoleRef rb)) of
                 Inl e \<Rightarrow> Inl (FetchingClusterRoleForRoleBinding
                                 (ref_Name (rb_RoleRef rb)) (rb_Name rb) e)
               | Inr role \<Rightarrow> Inr (Rules role))
         else if ref_Kind (rb_RoleRef rb) = ''Role''
         then (case Roles_Get (rb_Namespace rb) (ref_Name (rb_RoleRef rb)) of
                 Inl e \<Rightarrow> Inl (FetchingRoleForRoleBinding
                                 (ref_Name (rb_RoleRef rb)) (rb_Name rb) e)
               | Inr role \<Rightarrow> Inr (Rules role))
         else Inl (UnknownRoleReferenceKind (ref_Kind (rb_RoleRef rb))))) \<and>
   (Kind res = ''ClusterRoleBinding'' \<and> AsClusterRoleBinding res = Inr crb \<longrightarrow>
      RulesForBinding ClusterRoles_Get Roles_Get res =
        (case ClusterRoles_Get (ref_Name (crb_RoleRef crb)) of
           Inl e \<Rightarrow> Inl (FetchingClusterRoleForClusterRoleBinding
                           (ref_Name (crb_RoleRef crb)) (crb_Name crb) e)
         | Inr role \<Rightarrow> Inr (Rules role)))"
  by (simp add: RulesForBinding_def RulesForRoleBinding_def RulesForClusterRoleBinding_def)


theorem RulesForBinding_cases_witness:
  "RulesForBinding
     (\<lambda>name. if name = ''admin'' then Inr \<lparr>Rules = [\<lparr>Verbs = [''*''], APIGroups = [''*''],
                  Resources = [''*''], ResourceNames = [], NonResourceURLs = []\<rparr>]\<rparr>
              else Inl (External ''not found''))
     (\<lambda>namespace name. Inr \<lparr>Rules = []\<rparr>)
     \<lparr>Kind = ''RoleBinding'',
      AsRoleBinding = Inr \<lparr>rb_Name = ''b'', rb_Namespace = ''ns'',
                            rb_RoleRef = \<lparr>ref_Kind = ''ClusterRole'', ref_Name = ''admin''\<rparr>\<rparr>,
      AsClusterRoleBinding = Inl (External ''not a ClusterRoleBinding'')\<rparr>
   = Inr [\<lparr>Verbs = [''*''], APIGroups = [''*''], Resources = [''*''], ResourceNames = [],
           NonResourceURLs = []\<rparr>] \<and>
   RulesForBinding
     (\<lambda>name. Inl (External ''not found''))
     (\<lambda>namespace name. Inr \<lparr>Rules = []\<rparr>)
     \<lparr>Kind = ''RoleBinding'',
      AsRoleBinding = Inr \<lparr>rb_Name = ''b'', rb_Namespace = ''ns'',
                            rb_RoleRef = \<lparr>ref_Kind = ''Group'', ref_Name = ''admin''\<rparr>\<rparr>,
      AsClusterRoleBinding = Inl (External ''not a ClusterRoleBinding'')\<rparr>
   = Inl (UnknownRoleReferenceKind ''Group'') \<and>
   RulesForBinding
     (\<lambda>name. Inl (External ''not found''))
     (\<lambda>namespace name. Inr \<lparr>Rules = []\<rparr>)
     \<lparr>Kind = ''ClusterRoleBinding'',
      AsRoleBinding = Inl (External ''not a RoleBinding''),
      AsClusterRoleBinding =
        Inr \<lparr>crb_Name = ''b'', crb_RoleRef = \<lparr>ref_Kind = ''ClusterRole'', ref_Name = ''admin''\<rparr>\<rparr>\<rparr>
   = Inl (FetchingClusterRoleForClusterRoleBinding ''admin'' ''b'' (External ''not found'')) \<and>
   RulesForBinding
     (\<lambda>name. Inl (External ''not found''))
     (\<lambda>namespace name. Inr \<lparr>Rules = []\<rparr>)
     \<lparr>Kind = ''ConfigMap'',
      AsRoleBinding = Inl (External ''not a RoleBinding''),
      AsClusterRoleBinding = Inl (External ''not a ClusterRoleBinding'')\<rparr>
   = Inl (UnknownBindingKind ''ConfigMap'') \<and>
   RulesForBinding
     (\<lambda>name. Inl (External ''not found''))
     (\<lambda>namespace name. Inr \<lparr>Rules = []\<rparr>)
     \<lparr>Kind = ''RoleBinding'',
      AsRoleBinding = Inl (External ''malformed''),
      AsClusterRoleBinding = Inl (External ''not a ClusterRoleBinding'')\<rparr>
   = Inl (ConvertingToRoleBinding (External ''malformed''))"
proof -
  let ?rule = "\<lparr>Verbs = [''*''], APIGroups = [''*''], Resources = [''*''], ResourceNames = [],
           NonResourceURLs = []\<rparr>"
  let ?C = "\<lambda>name. if name = ''admin'' then Inr \<lparr>Rules = [?rule]\<rparr>
              else Inl (External ''not found'')"
  let ?N = "\<lambda>name :: string. (Inl (External ''not found'') :: error + Role)"
  let ?R = "\<lambda>(namespace :: string) (name :: string). (Inr \<lparr>Rules = []\<rparr> :: error + Role)"
  let ?rb1 = "\<lparr>rb_Name = ''b'', rb_Namespace = ''ns'',
               rb_RoleRef = \<lparr>ref_Kind = ''ClusterRole'', ref_Name = ''admin''\<rparr>\<rparr>"
  let ?rb2 = "\<lparr>rb_Name = ''b'', rb_Namespace = ''ns'',
               rb_RoleRef = \<lparr>ref_Kind = ''Group'', ref_Name = ''admin''\<rparr>\<rparr>"
  let ?crb = "\<lparr>crb_Name = ''b'', crb_RoleRef = \<lparr>ref_Kind = ''ClusterRole'', ref_Name = ''admin''\<rparr>\<rparr>"
  let ?res1 = "\<lparr>Kind = ''RoleBinding'', AsRoleBinding = Inr ?rb1,
      AsClusterRoleBinding = Inl (External ''not a ClusterRoleBinding'')\<rparr>"
  let ?res2 = "\<lparr>Kind = ''RoleBinding'', AsRoleBinding = Inr ?rb2,
      AsClusterRoleBinding = Inl (External ''not a ClusterRoleBinding'')\<rparr>"
  let ?res3 = "\<lparr>Kind = ''ClusterRoleBinding'', AsRoleBinding = Inl (External ''not a RoleBinding''),
      AsClusterRoleBinding = Inr ?crb\<rparr>"
  let ?res4 = "\<lparr>Kind = ''ConfigMap'', AsRoleBinding = Inl (External ''not a RoleBinding''),
      AsClusterRoleBinding = Inl (External ''not a ClusterRoleBinding'')\<rparr>"
  let ?res5 = "\<lparr>Kind = ''RoleBinding'', AsRoleBinding = Inl (External ''malformed''),
      AsClusterRoleBinding = Inl (External ''not a ClusterRoleBinding'')\<rparr>"
  have a: "RulesForBinding ?C ?R ?res1 = Inr [?rule]"
    using RulesForBinding_cases [of ?res1 ?C ?R "External ''x''" ?rb1 ?crb] by simp
  have b: "RulesForBinding ?N ?R ?res2 = Inl (UnknownRoleReferenceKind ''Group'')"
    using RulesForBinding_cases [of ?res2 ?N ?R "External ''x''" ?rb2 ?crb] by simp
  have c: "RulesForBinding ?N ?R ?res3 =
             Inl (FetchingClusterRoleForClusterRoleBinding ''admin'' ''b'' (External ''not found''))"
    using RulesForBinding_cases [of ?res3 ?N ?R "External ''x''" ?rb1 ?crb] by simp
  have d: "RulesForBinding ?N ?R ?res4 = Inl (UnknownBindingKind ''ConfigMap'')"
    using RulesForBinding_cases [of ?res4 ?N ?R "External ''x''" ?rb1 ?crb] by simp
  have e: "RulesForBinding ?N ?R ?res5 = Inl (ConvertingToRoleBinding (External ''malformed''))"
    using RulesForBinding_cases [of ?res5 ?N ?R "External ''malformed''" ?rb1 ?crb] by simp
  show ?thesis using a b c d e by simp
qed

text \<open>
  A \<^verbatim>\<open>ClusterRoleBinding\<close> whose reference has a kind that is no role kind: the rules
  of the \<^verbatim>\<open>ClusterRole\<close> of that name are returned.
\<close>

theorem RulesForBinding_ClusterRoleBinding_any_kind_counterexample:
  "RulesForBinding
     (\<lambda>name. if name = ''admin'' then Inr \<lparr>Rules = [\<lparr>Verbs = [''*''], APIGroups = [''*''],
                  Resources = [''*''], ResourceNames = [], NonResourceURLs = []\<rparr>]\<rparr>
              else Inl (External ''not found''))
     (\<lambda>namespace name. Inl (External ''not found''))
     \<lparr>Kind = ''ClusterRoleBinding'',
      AsRoleBinding = Inl (External ''not a RoleBinding''),
      AsClusterRoleBinding =
        Inr \<lparr>crb_Name = ''b'', crb_RoleRef = \<lparr>ref_Kind = ''NoSuchKind'', ref_Name = ''admin''\<rparr>\<rparr>\<rparr>
   = Inr [\<lparr>Verbs = [''*''], APIGroups = [''*''], Resources = [''*''], ResourceNames = [],
           NonResourceURLs = []\<rparr>]"
  by (simp add: RulesForBinding_def RulesForClusterRoleBinding_def)

section \<open>Properties of the cached permission validator\<close>

lemma ValidatePermissions_hit:
  "cache (cache_key a) = Some rules \<Longrightarrow>
   SelfSubjectRulesReviewValidator_ValidatePermissions ssrrCreate RulesAllow a (cache, w) =
     (verdict RulesAllow a rules, (cache, w))"
  by (simp add: SelfSubjectRulesReviewValidator_ValidatePermissions_def cache_key_def
        verdict_def Let_def)

lemma ValidatePermissions_miss:
  "cache (cache_key a) = None \<Longrightarrow>
   SelfSubjectRulesReviewValidator_ValidatePermissions ssrrCreate RulesAllow a (cache, w) =
     (case fst (ssrrCreate (cache_key a) w) of
        Inl err \<Rightarrow> (Some (CreatingSelfSubjectRulesReview err),
                    (cache, snd (ssrrCreate (cache_key a) w)))
      | Inr status \<Rightarrow>
          if Incomplete status
          then (Some IncompleteSelfSubjectRulesReview, (cache, snd (ssrrCreate (cache_key a) w)))
          else (verdict RulesAllow a (rules_of_review status),
                (cache(cache_key a \<mapsto> rules_of_review status),
                 snd (ssrrCreate (cache_key a) w))))"
  by (simp add: SelfSubjectRulesReviewValidator_ValidatePermissions_def cache_key_def
        verdict_def Let_def case_prod_beta split: sum.splits)

lemma complete_queries_append:
  "complete_queries ns (log @ [(n, ok)]) =
     complete_queries ns log + (if n = ns \<and> ok then 1 else 0)"
  by (simp add: complete_queries_def)

lemma step_inv:
  assumes inv: "cache_inv cache log"
    and step: "SelfSubjectRulesReviewValidator_ValidatePermissions (logged ssrrCreate) RulesAllow a
                 (cache, (w, log)) = (err, (cache', (w', log')))"
  shows "cache_inv cache' log'"
proof (cases "cache (cache_key a)")
  case (Some rules)
  from step show ?thesis
    unfolding ValidatePermissions_hit[where cache=cache and a=a, OF Some] using inv by simp
next
  case None
  obtain res w1 where c: "ssrrCreate (cache_key a) w = (res, w1)"
    by (cases "ssrrCreate (cache_key a) w")
  have lg: "logged ssrrCreate (cache_key a) (w, log) =
              (res, (w1, log @ [(cache_key a, complete_review res)]))"
    using c by (simp add: logged_def)
  show ?thesis
  proof (cases res)
    case (Inl e)
    from step have "cache' = cache" "log' = log @ [(cache_key a, False)]"
      unfolding ValidatePermissions_miss[where cache=cache and a=a, OF None] lg using Inl
      by (simp_all add: complete_review_def)
    then show ?thesis
      using inv by (simp add: cache_inv_def complete_queries_append)
  next
    case (Inr status)
    show ?thesis
    proof (cases "Incomplete status")
      case True
      from step have "cache' = cache" "log' = log @ [(cache_key a, False)]"
        unfolding ValidatePermissions_miss[where cache=cache and a=a, OF None] lg using Inr True
        by (simp_all add: complete_review_def)
      then show ?thesis
        using inv by (simp add: cache_inv_def complete_queries_append)
    next
      case False
      from step have "cache' = cache(cache_key a \<mapsto> rules_of_review status)"
        "log' = log @ [(cache_key a, True)]"
        unfolding ValidatePermissions_miss[where cache=cache and a=a, OF None] lg using Inr False
        by (simp_all add: complete_review_def)
      then show ?thesis
        using inv None by (auto simp: cache_inv_def complete_queries_append)
    qed
  qed
qed

lemma validate_all_inv:
  "cache_inv cache log \<Longrightarrow>
   validate_all (logged ssrrCreate) RulesAllow attrs (cache, (w, log)) =
     (errs, (cache', (w', log'))) \<Longrightarrow>
   cache_inv cache' log'"
proof (induction attrs arbitrary: cache w log errs)
  case Nil
  then show ?case by simp
next
  case (Cons a attrs)
  obtain err c1 w1 l1 where
    s1: "SelfSubjectRulesReviewValidator_ValidatePermissions (logged ssrrCreate) RulesAllow a
           (cache, (w, log)) = (err, (c1, (w1, l1)))"
    by (metis prod.exhaust)
  obtain errs2 where
    s2: "validate_all (logged ssrrCreate) RulesAllow attrs (c1, (w1, l1)) =
           (errs2, (cache', (w', log')))"
    using Cons.prems(2) s1 by (auto split: prod.splits)
  have "cache_inv c1 l1" by (rule step_inv[OF Cons.prems(1) s1])
  then show ?case by (rule Cons.IH[OF _ s2])
qed


text \<open>
  C7, as the code has it. A check whose namespace (\<^verbatim>\<open>default\<close> for the empty one) is in
  the cache makes no query: the state of the client and the cache are as before, and the
  outcome is the match of the cached rules. A check whose namespace is not in the cache
  makes one query for it; when the query fails or the review is incomplete the check fails
  and the cache stays as it was; otherwise the rules of the review, resource rules first,
  are stored under the namespace and matched. In a run that starts with the empty cache,
  whatever the checks, at most one complete review is fetched for a namespace.
\<close>

theorem cached_strategy_queries:
  "(cache (cache_key a) = Some rules \<longrightarrow>
      SelfSubjectRulesReviewValidator_ValidatePermissions ssrrCreate RulesAllow a (cache, w) =
        (verdict RulesAllow a rules, (cache, w))) \<and>
   (cache (cache_key a) = None \<longrightarrow>
      SelfSubjectRulesReviewValidator_ValidatePermissions ssrrCreate RulesAllow a (cache, w) =
        (case fst (ssrrCreate (cache_key a) w) of
           Inl err \<Rightarrow> (Some (CreatingSelfSubjectRulesReview err),
                       (cache, snd (ssrrCreate (cache_key a) w)))
         | Inr status \<Rightarrow>
             if Incomplete status
             then (Some IncompleteSelfSubjectRulesReview,
                   (cache, snd (ssrrCreate (cache_key a) w)))
             else (verdict RulesAllow a (rules_of_review status),
                   (cache(cache_key a \<mapsto> rules_of_review status),
                    snd (ssrrCreate (cache_key a) w))))) \<and>
   complete_queries ns
     (snd (snd (snd (validate_all (logged ssrrCreate) RulesAllow attrs (Map.empty, (w, []))))))
     \<le> 1"
proof (intro conjI impI)
  assume "cache (cache_key a) = Some rules"
  then show "SelfSubjectRulesReviewValidator_ValidatePermissions ssrrCreate RulesAllow a (cache, w) =
        (verdict RulesAllow a rules, (cache, w))"
    by (rule ValidatePermissions_hit)
next
  assume "cache (cache_key a) = None"
  then show "SelfSubjectRulesReviewValidator_ValidatePermissions ssrrCreate RulesAllow a (cache, w) =
        (case fst (ssrrCreate (cache_key a) w) of
           Inl err \<Rightarrow> (Some (CreatingSelfSubjectRulesReview err),
                       (cache, snd (ssrrCreate (cache_key a) w)))
         | Inr status \<Rightarrow>
             if Incomplete status
             then (Some IncompleteSelfSubjectRulesReview,
                   (cache, snd (ssrrCreate (cache_key a) w)))
             else (verdict RulesAllow a (rules_of_review status),
                   (cache(cache_key a \<mapsto> rules_of_review status),
                    snd (ssrrCreate (cache_key a) w))))"
    by (rule ValidatePermissions_miss)
next
  obtain errs cache' w' log' where
    run: "validate_all (logged ssrrCreate) RulesAllow attrs (Map.empty, (w, [])) =
            (errs, (cache', (w', log')))"
    by (metis prod.exhaust)
  have "cache_inv Map.empty []" by (simp add: cache_inv_def complete_queries_def)
  then have "cache_inv cache' log'" using run by (rule validate_all_inv)
  then have "complete_queries ns log' \<le> 1" by (simp add: cache_inv_def)
  then show "complete_queries ns
     (snd (snd (snd (validate_all (logged ssrrCreate) RulesAllow attrs (Map.empty, (w, []))))))
     \<le> 1"
    by (simp add: run)
qed

theorem cached_strategy_queries_witness:
  "fst (SelfSubjectRulesReviewValidator_ValidatePermissions failing_ssrrCreate verb_listed
       \<lparr>Namespace = ''team-a'', Verb = ''get'', Group = [], Version = ''v1'',
        Resource = ''configmaps'', Name = ''cm''\<rparr>
       ([''team-a'' \<mapsto> [\<lparr>Verbs = [''get''], APIGroups = [[]], Resources = [''configmaps''],
                           ResourceNames = [], NonResourceURLs = []\<rparr>]], ()))
   = None \<and>
   fst (SelfSubjectRulesReviewValidator_ValidatePermissions failing_ssrrCreate verb_listed
       \<lparr>Namespace = ''team-a'', Verb = ''get'', Group = [], Version = ''v1'',
        Resource = ''configmaps'', Name = ''cm''\<rparr>
       (Map.empty, ()))
   = Some (CreatingSelfSubjectRulesReview (External ''connection refused'')) \<and>
   fst (validate_all (logged granting_ssrrCreate) verb_listed
       [\<lparr>Namespace = ''team-a'', Verb = ''get'', Group = [], Version = ''v1'',
         Resource = ''configmaps'', Name = ''cm''\<rparr>,
        \<lparr>Namespace = ''team-a'', Verb = ''delete'', Group = [], Version = ''v1'',
         Resource = ''configmaps'', Name = ''cm''\<rparr>,
        \<lparr>Namespace = [], Verb = ''get'', Group = [], Version = ''v1'',
         Resource = ''configmaps'', Name = ''cm''\<rparr>]
       (Map.empty, ((), [])))
   = [None, Some (NotPermitted ''delete'' [] ''v1'' ''configmaps''), None] \<and>
   snd (snd (snd (validate_all (logged granting_ssrrCreate) verb_listed
       [\<lparr>Namespace = ''team-a'', Verb = ''get'', Group = [], Version = ''v1'',
         Resource = ''configmaps'', Name = ''cm''\<rparr>,
        \<lparr>Namespace = ''team-a'', Verb = ''delete'', Group = [], Version = ''v1'',
         Resource = ''configmaps'', Name = ''cm''\<rparr>,
        \<lparr>Namespace = [], Verb = ''get'', Group = [], Version = ''v1'',
         Resource = ''configmaps'', Name = ''cm''\<rparr>]
       (Map.empty, ((), [])))))
   = [(''team-a'', True), (''default'', True)] \<and>
   complete_queries ''team-a''
     (snd (snd (snd (validate_all (logged granting_ssrrCreate) verb_listed
       [\<lparr>Namespace = ''team-a'', Verb = ''get'', Group = [], Version = ''v1'',
         Resource = ''configmaps'', Name = ''cm''\<rparr>,
        \<lparr>Namespace = ''team-a'', Verb = ''delete'', Group = [], Version = ''v1'',
         Resource = ''configmaps'', Name = ''cm''\<rparr>,
        \<lparr>Namespace = [], Verb = ''get'', Group = [], Version = ''v1'',
         Resource = ''configmaps'', Name = ''cm''\<rparr>]
       (Map.empty, ((), []))))))
   \<le> 1"
proof -
  let ?get = "\<lparr>Namespace = ''team-a'', Verb = ''get'', Group = [], Version = ''v1'',
        Resource = ''configmaps'', Name = ''cm''\<rparr>"
  let ?del = "\<lparr>Namespace = ''team-a'', Verb = ''delete'', Group = [], Version = ''v1'',
         Resource = ''configmaps'', Name = ''cm''\<rparr>"
  let ?def = "\<lparr>Namespace = [], Verb = ''get'', Group = [], Version = ''v1'',
         Resource = ''configmaps'', Name = ''cm''\<rparr>"
  let ?rule = "\<lparr>Verbs = [''get''], APIGroups = [[]], Resources = [''configmaps''],
                           ResourceNames = [], NonResourceURLs = []\<rparr>"
  have hit: "[''team-a'' \<mapsto> [?rule]] (cache_key ?get) = Some [?rule]"
    by (simp add: cache_key_def)
  have a: "fst (SelfSubjectRulesReviewValidator_ValidatePermissions failing_ssrrCreate
                  verb_listed ?get ([''team-a'' \<mapsto> [?rule]], ())) = None"
    using mp[OF conjunct1[OF cached_strategy_queries
          [where cache="[''team-a'' \<mapsto> [?rule]]" and a="?get" and rules="[?rule]"
             and ssrrCreate=failing_ssrrCreate and RulesAllow=verb_listed and w="()"
             and ns="''team-a''" and attrs="[]"]] hit]
    by (simp add: verdict_def verb_listed_def attributes_record_def)
  have miss: "Map.empty (cache_key ?get) = None" by simp
  have b: "fst (SelfSubjectRulesReviewValidator_ValidatePermissions failing_ssrrCreate
                  verb_listed ?get (Map.empty, ()))
           = Some (CreatingSelfSubjectRulesReview (External ''connection refused''))"
    using mp[OF conjunct1[OF conjunct2[OF cached_strategy_queries
          [where cache="Map.empty" and a="?get" and rules="[?rule]"
             and ssrrCreate=failing_ssrrCreate and RulesAllow=verb_listed and w="()"
             and ns="''team-a''" and attrs="[]"]]] miss]
    by (simp add: failing_ssrrCreate_def)
  have c: "complete_queries ''team-a''
     (snd (snd (snd (validate_all (logged granting_ssrrCreate) verb_listed
       [?get, ?del, ?def] (Map.empty, ((), []))))))
   \<le> 1"
    by (rule conjunct2[OF conjunct2[OF cached_strategy_queries
          [where cache="Map.empty" and a="?get" and rules="[?rule]"
             and ssrrCreate=granting_ssrrCreate and RulesAllow=verb_listed and w="()"
             and ns="''team-a''" and attrs="[?get, ?del, ?def]"]]])
  have d: "validate_all (logged granting_ssrrCreate) verb_listed [?get, ?del, ?def]
             (Map.empty, ((), []))
   = ([None, Some (NotPermitted ''delete'' [] ''v1'' ''configmaps''), None],
      (fst (snd (validate_all (logged granting_ssrrCreate) verb_listed [?get, ?del, ?def]
                  (Map.empty, ((), [])))),
       ((), [(''team-a'', True), (''default'', True)])))"
    by (simp add: SelfSubjectRulesReviewValidator_ValidatePermissions_def Let_def logged_def
        granting_ssrrCreate_def rules_of_review_def verb_listed_def attributes_record_def
        not_permitted_def complete_review_def)
  have d1: "fst (validate_all (logged granting_ssrrCreate) verb_listed [?get, ?del, ?def]
             (Map.empty, ((), [])))
            = [None, Some (NotPermitted ''delete'' [] ''v1'' ''configmaps''), None]"
    by (subst d) simp
  have d2: "snd (snd (snd (validate_all (logged granting_ssrrCreate) verb_listed
              [?get, ?del, ?def] (Map.empty, ((), [])))))
            = [(''team-a'', True), (''default'', True)]"
    by (subst d) simp
  show ?thesis
    using a b c d1 d2 by (intro conjI)
qed

text \<open>
  With a client whose query fails, the \<^verbatim>\<open>create\<close> and the \<^verbatim>\<open>update\<close> check of one
  resource each make the bulk query for the namespace: two queries for one namespace in
  one run.
\<close>

theorem cached_strategy_requeries_after_failure_counterexample:
  "queries ''team-a''
     (snd (snd (snd (validate_all (logged failing_ssrrCreate) verb_listed
       [\<lparr>Namespace = ''team-a'', Verb = ''create'', Group = [], Version = ''v1'',
         Resource = ''configmaps'', Name = ''cm''\<rparr>,
        \<lparr>Namespace = ''team-a'', Verb = ''update'', Group = [], Version = ''v1'',
         Resource = ''configmaps'', Name = ''cm''\<rparr>]
       (Map.empty, ((), []))))))
   = 2"
  by (simp add: SelfSubjectRulesReviewValidator_ValidatePermissions_def Let_def logged_def
        failing_ssrrCreate_def complete_review_def queries_def)

end
